theory Spec2Isabelle
  imports Main "HOL-Library.Word"
begin

section \<open>Strings and values of the host language\<close>

text \<open>
  A JavaScript string is a sequence of 16-bit code units. String literals of the
  source are written with \<open>js\<close>, which maps an ASCII literal to its code units.
\<close>

type_synonym jschar = "16 word"
type_synonym jstring = "jschar list"

definition js :: "string \<Rightarrow> jstring" where
  "js s = map (\<lambda>c. of_nat (of_char c)) s"

text \<open>
  Values of type \<open>any\<close>. Integers stand for the numbers that have no fraction. An
  object is \<open>Object.prototype\<close> itself, one of the functions that \<open>Object.prototype\<close>
  holds (named by its key), or another object of the host, such as the plain objects and
  arrays that \<open>JSON.parse\<close> returns. \<open>JOther\<close> carries the remaining primitive values
  (numbers with a fraction and the like).
\<close>

datatype 'o jsobject =
    ObjectPrototype
  | ObjectPrototypeFunction jstring
  | HostObject 'o

datatype 'o jsvalue =
    JUndefined
  | JNull
  | JBool bool
  | JNum int
  | JStr jstring
  | JObject "'o jsobject"
  | JOther 'o

text \<open>
  A \<open>Record<string, any>\<close> is an ordinary object: its own properties, which the code
  creates by assignment and which are therefore writable data properties, and its
  prototype (\<open>None\<close> for \<open>null\<close>). The object literal \<open>{}\<close> has no own property and
  the prototype \<open>Object.prototype\<close>.
\<close>

record 'o jsrecord =
  r_own :: "jstring \<Rightarrow> 'o jsvalue option"
  r_proto :: "'o jsobject option"

definition empty_object :: "'o jsrecord" where
  "empty_object = \<lparr>r_own = Map.empty, r_proto = Some ObjectPrototype\<rparr>"

text \<open>
  The data properties of \<open>Object.prototype\<close> are these functions, all writable; its one
  accessor property is \<open>__proto__\<close>. What the prototype chain of any other object holds
  belongs to the host and is a parameter: \<open>host obj k\<close> is the data property found under
  \<open>k\<close> along the chain of \<open>obj\<close>, \<open>None\<close> when there is none. The objects met here
  come out of \<open>JSON.parse\<close>: their chains end in \<open>Object.prototype\<close> and hold writable
  data properties only.
\<close>

type_synonym 'o host = "'o jsobject \<Rightarrow> jstring \<Rightarrow> 'o jsvalue option"

definition object_prototype_functions :: "jstring list" where
  "object_prototype_functions =
     [js ''constructor'', js ''__defineGetter__'', js ''__defineSetter__'', js ''hasOwnProperty'',
      js ''__lookupGetter__'', js ''__lookupSetter__'', js ''isPrototypeOf'',
      js ''propertyIsEnumerable'', js ''toString'', js ''valueOf'', js ''toLocaleString'']"

definition inherited_data :: "'o host \<Rightarrow> 'o jsobject \<Rightarrow> jstring \<Rightarrow> 'o jsvalue option" where
  "inherited_data host obj k =
     (case obj of
        ObjectPrototype \<Rightarrow>
          if k \<in> set object_prototype_functions then Some (JObject (ObjectPrototypeFunction k))
          else None
      | _ \<Rightarrow> host obj k)"

text \<open>
  \<open>r[k]\<close>: the own property, else the data property found along the prototype chain,
  else for \<open>__proto__\<close> the result of the getter of \<open>Object.prototype\<close>, which is the
  prototype of \<open>r\<close>, else \<open>undefined\<close>.
\<close>

definition record_get :: "'o host \<Rightarrow> 'o jsrecord \<Rightarrow> jstring \<Rightarrow> 'o jsvalue" where
  "record_get host r k =
     (case r_own r k of
        Some v \<Rightarrow> v
      | None \<Rightarrow>
          (case r_proto r of
             None \<Rightarrow> JUndefined
           | Some p \<Rightarrow>
               (case inherited_data host p k of
                  Some v \<Rightarrow> v
                | None \<Rightarrow> if k = js ''__proto__'' then JObject p else JUndefined)))"

text \<open>
  \<open>r[k] = v\<close>. An own property is overwritten, and a key that is not an own property
  becomes one, also when the chain holds a data property of that name. The exception is
  the key \<open>__proto__\<close> when the lookup reaches the setter of \<open>Object.prototype\<close>: the
  setter makes an object or \<open>null\<close> the new prototype of \<open>r\<close>, ignores any other
  value, and creates no property.
\<close>

definition record_set :: "'o host \<Rightarrow> 'o jsrecord \<Rightarrow> jstring \<Rightarrow> 'o jsvalue \<Rightarrow> 'o jsrecord" where
  "record_set host r k v =
     (if k = js ''__proto__'' \<and> r_own r k = None
         \<and> (case r_proto r of None \<Rightarrow> False | Some p \<Rightarrow> inherited_data host p k = None)
      then (case v of
              JNull \<Rightarrow> r\<lparr>r_proto := None\<rparr>
            | JObject obj \<Rightarrow> r\<lparr>r_proto := Some obj\<rparr>
            | _ \<Rightarrow> r)
      else r\<lparr>r_own := (r_own r)(k \<mapsto> v)\<rparr>)"

datatype jserror = TypeError | URIError | InvalidCharacterError

section \<open>Data model of the composer\<close>

datatype ParamType = PColor | PText | PNumber | PSelect

record 'o ParamDef =
  p_key :: jstring
  p_label :: jstring
  p_type :: ParamType
  p_default :: "'o jsvalue"
  p_explain :: "jstring option"

record 'o BlockDef =
  d_id :: jstring
  d_name :: jstring
  d_params :: "'o ParamDef list"
  d_hue :: "int option"

record Project =
  files :: "(jstring \<times> jstring) list"
  compositionId :: jstring

record 'o Block =
  b_def :: "'o BlockDef"
  b_project :: Project

datatype 'o PromptSeg =
    TextSeg (seg_id: jstring) (seg_value: jstring)
  | BlockSeg (seg_id: jstring) (seg_blockId: jstring) (seg_values: "'o jsrecord")
      (seg_contextUrl: "jstring option") (seg_contextData: "jstring option")

fun is_text :: "'o PromptSeg \<Rightarrow> bool" where
  "is_text (TextSeg _ _) = True"
| "is_text (BlockSeg _ _ _ _ _) = False"

fun is_block :: "'o PromptSeg \<Rightarrow> bool" where
  "is_block (TextSeg _ _) = False"
| "is_block (BlockSeg _ _ _ _ _) = True"

section \<open>Array primitives\<close>

text \<open>\<open>Array.prototype.findIndex\<close>: the first index whose element satisfies the
  predicate, \<open>-1\<close> when there is none.\<close>

fun findIndex :: "('a \<Rightarrow> bool) \<Rightarrow> 'a list \<Rightarrow> int" where
  "findIndex P [] = -1"
| "findIndex P (x # xs) =
     (if P x then 0 else (let r = findIndex P xs in if r = -1 then -1 else r + 1))"

text \<open>\<open>Array.prototype.find\<close>: the first element satisfying the predicate.\<close>

fun find_first :: "('a \<Rightarrow> bool) \<Rightarrow> 'a list \<Rightarrow> 'a option" where
  "find_first P [] = None"
| "find_first P (x # xs) = (if P x then Some x else find_first P xs)"

text \<open>The start position of \<open>splice\<close> and \<open>slice\<close>: a negative start counts from
  the end, and the result is clamped to the bounds of the array.\<close>

definition relative_start :: "nat \<Rightarrow> int \<Rightarrow> nat" where
  "relative_start len start =
     (if start < 0 then nat (max (int len + start) 0) else nat (min start (int len)))"

text \<open>\<open>xs.splice(start, 0, x)\<close>.\<close>

definition splice_insert :: "'a list \<Rightarrow> int \<Rightarrow> 'a \<Rightarrow> 'a list" where
  "splice_insert xs start x =
     (let k = relative_start (length xs) start in take k xs @ [x] @ drop k xs)"

text \<open>\<open>xs.splice(start, 1)\<close>: the removed elements and the remaining array.\<close>

definition splice_delete1 :: "'a list \<Rightarrow> int \<Rightarrow> 'a list \<times> 'a list" where
  "splice_delete1 xs start =
     (let k = relative_start (length xs) start
      in (take 1 (drop k xs), take k xs @ drop (Suc k) xs))"

text \<open>\<open>xs[i]\<close>: \<open>None\<close> stands for \<open>undefined\<close>, the value of a read out of range.\<close>

definition at :: "'a list \<Rightarrow> int \<Rightarrow> 'a option" where
  "at xs i = (if 0 \<le> i \<and> i < int (length xs) then Some (xs ! nat i) else None)"

section \<open>Segmented composer operations\<close>

text \<open>
  \<open>removeSeg\<close>: filter the segment out, merge adjacent text segments (the value of
  the later one is appended to the earlier one, which keeps its id), and put one empty
  text segment into a list that became empty. \<open>uid\<close> is random in the source; each
  call site takes the id it would draw as an argument.
\<close>

definition merge_step :: "'o PromptSeg list \<Rightarrow> 'o PromptSeg \<Rightarrow> 'o PromptSeg list" where
  "merge_step merged s =
     (if merged \<noteq> [] \<and> is_text (last merged) \<and> is_text s
      then butlast merged @ [TextSeg (seg_id (last merged)) (seg_value (last merged) @ seg_value s)]
      else merged @ [s])"

definition removeSeg :: "jstring \<Rightarrow> jstring \<Rightarrow> 'o PromptSeg list \<Rightarrow> 'o PromptSeg list" where
  "removeSeg uid_new ident prev =
     (let next = filter (\<lambda>s. seg_id s \<noteq> ident) prev;
          merged = foldl merge_step [] next
      in if length merged = 0 then merged @ [TextSeg uid_new []] else merged)"

text \<open>
  \<open>moveSegment\<close>: the state updater passed to \<open>setSegments\<close>. The index that
  \<open>findIndex\<close> returns is in range, so \<open>splice\<close> removes exactly one element and the
  destructuring always binds \<open>seg\<close>; the case of an empty removed list never arises.
\<close>

definition moveSegment :: "jstring \<Rightarrow> int \<Rightarrow> 'o PromptSeg list \<Rightarrow> 'o PromptSeg list" where
  "moveSegment segId index prev =
     (let from = findIndex (\<lambda>s. seg_id s = segId) prev
      in if from = -1 then prev
         else (case splice_delete1 prev from of
                 (seg # _, next) \<Rightarrow>
                    (let to = (if from < index then max 0 (index - 1) else index)
                     in splice_insert next to seg)
               | ([], next) \<Rightarrow> next))"

text \<open>
  The block-definition branch of \<open>handleDrop\<close>: the updater that splices the new block
  in and then looks after the text segments around it. Reading a property of
  \<open>undefined\<close> raises \<open>TypeError\<close>.
\<close>

definition insertBlock ::
  "jstring \<Rightarrow> jstring \<Rightarrow> jstring \<Rightarrow> int \<Rightarrow> jstring \<Rightarrow> 'o jsrecord \<Rightarrow> 'o PromptSeg list
     \<Rightarrow> jserror + 'o PromptSeg list" where
  "insertBlock uid_block uid_before uid_after targetIndex blockId vals prev =
     (let insertAt = max 0 (min targetIndex (int (length prev)));
          next1 = splice_insert prev insertAt (BlockSeg uid_block blockId vals None None)
      in case (if insertAt = 0 then Inr True
               else (case at next1 (insertAt - 1) of
                       None \<Rightarrow> Inl TypeError
                     | Some s \<Rightarrow> Inr (\<not> is_text s))) of
           Inl e \<Rightarrow> Inl e
         | Inr needBefore \<Rightarrow>
            (let next2 = (if needBefore then splice_insert next1 insertAt (TextSeg uid_before [])
                          else next1)
             in case (case at next2 insertAt of
                        None \<Rightarrow> Inl TypeError
                      | Some s \<Rightarrow>
                          if is_block s then Inr (seg_id s)
                          else (case at next2 (insertAt + 1) of
                                  None \<Rightarrow> Inl TypeError
                                | Some s' \<Rightarrow> Inr (seg_id s'))) of
                  Inl e \<Rightarrow> Inl e
                | Inr wanted \<Rightarrow>
                   (let blockPos = findIndex (\<lambda>s. is_block s \<and> seg_id s = wanted) next2;
                        ensureAfter = blockPos + 1
                    in case (if ensureAfter \<ge> int (length next2) then Inr True
                             else (case at next2 ensureAfter of
                                     None \<Rightarrow> Inl TypeError
                                   | Some s \<Rightarrow> Inr (\<not> is_text s))) of
                         Inl e \<Rightarrow> Inl e
                       | Inr needAfter \<Rightarrow>
                           Inr (if needAfter
                                then splice_insert next2 (ensureAfter + 1) (TextSeg uid_after [])
                                else next2))))"

text \<open>
  \<open>handleDrop\<close>. The drop goes to the hovered drop zone when there is one. A payload
  with a segment id moves that segment; otherwise a payload with the id of a known block
  definition inserts a new block segment carrying the definition's defaults; any other
  drop leaves the list as it is. \<open>getData\<close> returns the empty string for a missing
  payload.
\<close>

definition block_defaults :: "'o host \<Rightarrow> 'o Block \<Rightarrow> 'o jsrecord" where
  "block_defaults host blk =
     foldl (\<lambda>vals p. record_set host vals (p_key p) (p_default p)) empty_object
       (d_params (b_def blk))"

definition handleDrop ::
  "'o host \<Rightarrow> jstring \<Rightarrow> jstring \<Rightarrow> jstring \<Rightarrow> 'o Block list \<Rightarrow> int option \<Rightarrow> int \<Rightarrow> jstring
     \<Rightarrow> jstring \<Rightarrow> 'o PromptSeg list \<Rightarrow> jserror + 'o PromptSeg list" where
  "handleDrop host uid_block uid_before uid_after blocks hoveredDropIndex index existingSegId blockId
     prev =
     (let targetIndex = (case hoveredDropIndex of Some h \<Rightarrow> h | None \<Rightarrow> index)
      in if existingSegId \<noteq> [] then Inr (moveSegment existingSegId targetIndex prev)
         else if blockId = [] then Inr prev
         else (case find_first (\<lambda>b. d_id (b_def b) = blockId) blocks of
                 None \<Rightarrow> Inr prev
               | Some blk \<Rightarrow>
                   insertBlock uid_block uid_before uid_after targetIndex blockId
                     (block_defaults host blk) prev))"

text \<open>
  Sequences of insertions and removals. Each operation carries the ids that its
  \<open>uid\<close> calls draw. A raised error ends the run.
\<close>

datatype 'o SegOp =
    InsertBlockOp jstring jstring jstring int jstring "'o jsrecord"
  | RemoveSegmentOp jstring jstring

fun apply_op :: "'o SegOp \<Rightarrow> 'o PromptSeg list \<Rightarrow> jserror + 'o PromptSeg list" where
  "apply_op (InsertBlockOp ub ut1 ut2 i bid vals) segs = insertBlock ub ut1 ut2 i bid vals segs"
| "apply_op (RemoveSegmentOp un ident) segs = Inr (removeSeg un ident segs)"

fun apply_ops :: "'o SegOp list \<Rightarrow> 'o PromptSeg list \<Rightarrow> jserror + 'o PromptSeg list" where
  "apply_ops [] segs = Inr segs"
| "apply_ops (op # ops) segs =
     (case apply_op op segs of Inl e \<Rightarrow> Inl e | Inr segs' \<Rightarrow> apply_ops ops segs')"

text \<open>The invariant of the segment list: not empty, and no two text segments side by side.\<close>

fun no_adjacent_text :: "'o PromptSeg list \<Rightarrow> bool" where
  "no_adjacent_text (a # b # rest) = (\<not> (is_text a \<and> is_text b) \<and> no_adjacent_text (b # rest))"
| "no_adjacent_text _ = True"

definition seg_invariant :: "'o PromptSeg list \<Rightarrow> bool" where
  "seg_invariant segs \<longleftrightarrow> length segs \<ge> 1 \<and> no_adjacent_text segs"

section \<open>String primitives\<close>

text \<open>The characters that \<open>\s\<close> of a regular expression and \<open>String.prototype.trim\<close>
  treat as white space: the WhiteSpace and LineTerminator code units of the language.\<close>

definition is_js_space :: "jschar \<Rightarrow> bool" where
  "is_js_space c \<longleftrightarrow>
     c = 0x9 \<or> c = 0xA \<or> c = 0xB \<or> c = 0xC \<or> c = 0xD \<or> c = 0x20 \<or> c = 0xA0
     \<or> c = 0x1680 \<or> (0x2000 \<le> c \<and> c \<le> 0x200A) \<or> c = 0x2028 \<or> c = 0x2029
     \<or> c = 0x202F \<or> c = 0x205F \<or> c = 0x3000 \<or> c = 0xFEFF"

text \<open>The character class \<open>[\w-]\<close>: ASCII letters, digits, underscore and hyphen.\<close>

definition is_id_char :: "jschar \<Rightarrow> bool" where
  "is_id_char c \<longleftrightarrow>
     (0x30 \<le> c \<and> c \<le> 0x39) \<or> (0x41 \<le> c \<and> c \<le> 0x5A) \<or> c = 0x5F
     \<or> (0x61 \<le> c \<and> c \<le> 0x7A) \<or> c = 0x2D"

definition trim_js :: "jstring \<Rightarrow> jstring" where
  "trim_js s = rev (dropWhile is_js_space (rev (dropWhile is_js_space s)))"

text \<open>\<open>s.split(/\s+/)\<close>: the pieces between maximal runs of white space; a run at the
  start or at the end of the string leaves an empty piece there.\<close>

function split_ws :: "jstring \<Rightarrow> jstring list" where
  "split_ws s =
     (let piece = takeWhile (\<lambda>c. \<not> is_js_space c) s;
          rest = dropWhile (\<lambda>c. \<not> is_js_space c) s
      in if rest = [] then [piece] else piece # split_ws (dropWhile is_js_space rest))"
  by pat_completeness auto
termination
proof (relation "measure length")
  show "wf (measure length)" by simp
next
  fix s :: jstring and piece rest
  assume r: "rest = dropWhile (\<lambda>c. \<not> is_js_space c) s" and ne: "rest \<noteq> []"
  from ne obtain c cs where rc: "rest = c # cs" by (cases rest) auto
  have "is_js_space c"
    using r rc by (auto simp: dropWhile_eq_Cons_conv dest: sym)
  then have "length (dropWhile is_js_space rest) \<le> length cs"
    using rc by (simp add: length_dropWhile_le)
  also have "\<dots> < length rest" using rc by simp
  also have "\<dots> \<le> length s" using r by (simp add: length_dropWhile_le)
  finally show "(dropWhile is_js_space rest, s) \<in> measure length" by simp
qed

declare split_ws.simps [simp del]

text \<open>\<open>s.indexOf(c)\<close> for a single character, and \<open>xs.join(sep)\<close>.\<close>

definition indexOf :: "jstring \<Rightarrow> jschar \<Rightarrow> int" where
  "indexOf s c = findIndex (\<lambda>x. x = c) s"

fun join :: "jstring \<Rightarrow> jstring list \<Rightarrow> jstring" where
  "join sep [] = []"
| "join sep [x] = x"
| "join sep (x # y # rest) = x @ sep @ join sep (y # rest)"

section \<open>Token grammar\<close>

text \<open>
  The regular expression \<open>/\[\[Block:([\w-]+)([^\]]*)\]\]/g\<close>. At a given position the
  match is decided without search: after the literal prefix, the first group takes the
  longest run of id characters, the second group the longest run of characters other
  than \<open>]\<close>, and two closing brackets must follow; giving characters of the first
  group back to the second one leads to the same position, so backtracking finds nothing
  else.
\<close>

record RegexMatch =
  m_index :: nat
  m_all :: jstring
  m_id :: jstring
  m_rest :: jstring

definition match_here :: "jstring \<Rightarrow> (jstring \<times> jstring \<times> nat) option" where
  "match_here s =
     (if take 8 s = js ''[[Block:'' then
        (let r1 = drop 8 s;
             ident = takeWhile is_id_char r1;
             r2 = dropWhile is_id_char r1;
             rest = takeWhile (\<lambda>c. c \<noteq> 0x5D) r2;
             r3 = dropWhile (\<lambda>c. c \<noteq> 0x5D) r2
         in if ident \<noteq> [] \<and> take 2 r3 = js '']]''
            then Some (ident, rest, 8 + length ident + length rest + 2)
            else None)
      else None)"

text \<open>
  The loop \<open>while ((m = regex.exec(text)))\<close>: the leftmost match at or after
  \<open>lastIndex\<close>, then on from the end of that match. \<open>skip\<close> counts the characters
  still covered by the last match.
\<close>

fun regex_scan :: "nat \<Rightarrow> nat \<Rightarrow> jstring \<Rightarrow> RegexMatch list" where
  "regex_scan pos skip [] = []"
| "regex_scan pos (Suc k) (c # cs) = regex_scan (Suc pos) k cs"
| "regex_scan pos 0 (c # cs) =
     (case match_here (c # cs) of
        Some (ident, rest, n) \<Rightarrow>
          \<lparr>m_index = pos, m_all = take n (c # cs), m_id = ident, m_rest = rest\<rparr>
            # regex_scan (Suc pos) (n - 1) cs
      | None \<Rightarrow> regex_scan (Suc pos) 0 cs)"

definition regex_matches :: "jstring \<Rightarrow> RegexMatch list" where
  "regex_matches text = regex_scan 0 0 text"

text \<open>
  Decoding of the parameters of a token, the same statement in \<open>findTokenAt\<close>,
  \<open>extractBlocksFromPrompt\<close> and \<open>findTokenByIndex\<close>. \<open>JSON.parse\<close> belongs to the
  platform and is a parameter: \<open>None\<close> stands for a raised \<open>SyntaxError\<close>, which
  the \<open>catch\<close> turns into the raw text as a string value. Both branches end in the
  assignment \<open>params[k] = \<dots>\<close> to the object that started as \<open>{}\<close>.
\<close>

definition decode_literal :: "(jstring \<Rightarrow> 'o jsvalue option) \<Rightarrow> jstring \<Rightarrow> 'o jsvalue" where
  "decode_literal JSON_parse v = (case JSON_parse v of Some x \<Rightarrow> x | None \<Rightarrow> JStr v)"

definition assign_kv ::
  "'o host \<Rightarrow> (jstring \<Rightarrow> 'o jsvalue option) \<Rightarrow> 'o jsrecord \<Rightarrow> jstring \<Rightarrow> 'o jsrecord" where
  "assign_kv host JSON_parse params kv =
     (let eq = indexOf kv 0x3D
      in if eq > 0 then
           (let k = take (nat eq) kv; v = drop (nat eq + 1) kv
            in record_set host params k (decode_literal JSON_parse v))
         else params)"

definition parse_params ::
  "'o host \<Rightarrow> (jstring \<Rightarrow> 'o jsvalue option) \<Rightarrow> jstring \<Rightarrow> 'o jsrecord" where
  "parse_params host JSON_parse rawParams =
     foldl (assign_kv host JSON_parse) empty_object
       (filter (\<lambda>kv. kv \<noteq> []) (split_ws (trim_js rawParams)))"

record 'o TokenInfo =
  t_start :: nat
  t_end :: nat
  t_blockId :: jstring
  t_params :: "'o jsrecord"

definition token_info ::
  "'o host \<Rightarrow> (jstring \<Rightarrow> 'o jsvalue option) \<Rightarrow> RegexMatch \<Rightarrow> 'o TokenInfo" where
  "token_info host JSON_parse m =
     \<lparr>t_start = m_index m, t_end = m_index m + length (m_all m), t_blockId = m_id m,
      t_params = parse_params host JSON_parse (m_rest m)\<rparr>"

definition findTokenAt ::
  "'o host \<Rightarrow> (jstring \<Rightarrow> 'o jsvalue option) \<Rightarrow> jstring \<Rightarrow> int \<Rightarrow> 'o TokenInfo option" where
  "findTokenAt host JSON_parse text pos =
     map_option (token_info host JSON_parse)
       (find_first (\<lambda>m. pos \<ge> int (m_index m) \<and> pos \<le> int (m_index m + length (m_all m)))
          (regex_matches text))"

definition findTokenByIndex ::
  "'o host \<Rightarrow> (jstring \<Rightarrow> 'o jsvalue option) \<Rightarrow> jstring \<Rightarrow> int \<Rightarrow> 'o TokenInfo option" where
  "findTokenByIndex host JSON_parse text index =
     (if index < 0 then None
      else map_option (token_info host JSON_parse) (at (regex_matches text) index))"

section \<open>Serializing a token\<close>

text \<open>
  The operator \<open>??\<close>, and a template-literal hole filled with the result of
  \<open>JSON.stringify\<close>, which is a string or \<open>undefined\<close>. \<open>JSON.stringify\<close> belongs to
  the platform and is a parameter.
\<close>

definition is_nullish :: "'o jsvalue \<Rightarrow> bool" where
  "is_nullish v \<longleftrightarrow> v = JUndefined \<or> v = JNull"

definition nullish_or :: "'o jsvalue \<Rightarrow> 'o jsvalue \<Rightarrow> 'o jsvalue" where
  "nullish_or a b = (if is_nullish a then b else a)"

definition template_string :: "jstring option \<Rightarrow> jstring" where
  "template_string x = (case x of None \<Rightarrow> js ''undefined'' | Some s \<Rightarrow> s)"

text \<open>The token text built by \<open>saveEditingToken\<close>: the parameters of the block
  definition in their declared order, each with the edited value or else its default
  (\<open>editingToken.values[p.key] ?? p.default\<close>).\<close>

definition effective_value :: "'o host \<Rightarrow> 'o jsrecord \<Rightarrow> 'o ParamDef \<Rightarrow> 'o jsvalue" where
  "effective_value host vals p = nullish_or (record_get host vals (p_key p)) (p_default p)"

definition serialize_token ::
  "'o host \<Rightarrow> ('o jsvalue \<Rightarrow> jstring option) \<Rightarrow> 'o Block \<Rightarrow> 'o jsrecord \<Rightarrow> jstring" where
  "serialize_token host JSON_stringify blk vals =
     (let paramStr =
            join (js '' '')
              (map (\<lambda>p. p_key p @ js ''=''
                         @ template_string (JSON_stringify (effective_value host vals p)))
                 (d_params (b_def blk)))
      in js ''[[Block:'' @ d_id (b_def blk) @ js '' '' @ paramStr @ js '']]'')"

record 'o EditingToken =
  e_start :: nat
  e_end :: nat
  e_blockId :: jstring
  e_values :: "'o jsrecord"

text \<open>\<open>saveEditingToken\<close> on the state it reads and writes: the prompt and the token
  being edited.\<close>

definition saveEditingToken ::
  "'o host \<Rightarrow> ('o jsvalue \<Rightarrow> jstring option) \<Rightarrow> 'o Block list \<Rightarrow> jstring
     \<Rightarrow> 'o EditingToken option \<Rightarrow> jstring \<times> 'o EditingToken option" where
  "saveEditingToken host JSON_stringify blocks prompt editingToken =
     (case editingToken of
        None \<Rightarrow> (prompt, None)
      | Some et \<Rightarrow>
          (case find_first (\<lambda>b. d_id (b_def b) = e_blockId et) blocks of
             None \<Rightarrow> (prompt, Some et)
           | Some blk \<Rightarrow>
               (take (e_start et) prompt @ serialize_token host JSON_stringify blk (e_values et)
                  @ drop (e_end et) prompt,
                None)))"

section \<open>Context flattening\<close>

record 'o UsageParam =
  up_key :: jstring
  up_default :: "'o jsvalue"
  up_value :: "'o jsvalue"

record 'o Usage =
  u_id :: jstring
  u_name :: jstring
  u_def_params :: "'o ParamDef list"
  u_params :: "'o UsageParam list"
  u_project :: Project
  u_context :: "(jstring \<times> jstring) option"

definition usage_of ::
  "'o host \<Rightarrow> 'o Block \<Rightarrow> 'o jsrecord \<Rightarrow> (jstring \<times> jstring) option \<Rightarrow> 'o Usage" where
  "usage_of host blk vals ctx =
     \<lparr>u_id = d_id (b_def blk),
      u_name = d_name (b_def blk),
      u_def_params =
        map (\<lambda>p. \<lparr>p_key = p_key p, p_label = p_label p, p_type = p_type p,
                   p_default = p_default p, p_explain = p_explain p\<rparr>)
          (d_params (b_def blk)),
      u_params =
        map (\<lambda>p. \<lparr>up_key = p_key p, up_default = p_default p,
                   up_value = record_get host vals (p_key p)\<rparr>)
          (d_params (b_def blk)),
      u_project = b_project blk,
      u_context = ctx\<rparr>"

text \<open>\<open>extractBlocksFromSegments\<close>: text segments and block segments whose definition
  is not found are passed over by \<open>continue\<close>.\<close>

fun extractBlocksFromSegments ::
  "'o host \<Rightarrow> 'o PromptSeg list \<Rightarrow> 'o Block list \<Rightarrow> 'o Usage list" where
  "extractBlocksFromSegments host [] blocks = []"
| "extractBlocksFromSegments host (seg # segs) blocks =
     (if \<not> is_block seg then extractBlocksFromSegments host segs blocks
      else (case find_first (\<lambda>b. d_id (b_def b) = seg_blockId seg) blocks of
              None \<Rightarrow> extractBlocksFromSegments host segs blocks
            | Some blk \<Rightarrow>
                usage_of host blk (seg_values seg)
                  (Some (case seg_contextUrl seg of None \<Rightarrow> [] | Some u \<Rightarrow> u,
                         case seg_contextData seg of None \<Rightarrow> [] | Some d \<Rightarrow> d))
                # extractBlocksFromSegments host segs blocks))"

text \<open>\<open>extractBlocksFromPrompt\<close>: the same over the tokens of a prompt string.\<close>

fun usages_of_matches ::
  "'o host \<Rightarrow> (jstring \<Rightarrow> 'o jsvalue option) \<Rightarrow> RegexMatch list \<Rightarrow> 'o Block list
     \<Rightarrow> 'o Usage list" where
  "usages_of_matches host JSON_parse [] blocks = []"
| "usages_of_matches host JSON_parse (m # ms) blocks =
     (case find_first (\<lambda>b. d_id (b_def b) = m_id m) blocks of
        None \<Rightarrow> usages_of_matches host JSON_parse ms blocks
      | Some blk \<Rightarrow>
          usage_of host blk (parse_params host JSON_parse (m_rest m)) None
            # usages_of_matches host JSON_parse ms blocks)"

definition extractBlocksFromPrompt ::
  "'o host \<Rightarrow> (jstring \<Rightarrow> 'o jsvalue option) \<Rightarrow> jstring \<Rightarrow> 'o Block list \<Rightarrow> 'o Usage list" where
  "extractBlocksFromPrompt host JSON_parse text blocks =
     usages_of_matches host JSON_parse (regex_matches text) blocks"

section \<open>Explain sentences of the generation request\<close>

text \<open>
  \<open>String.prototype.replace\<close> with a string pattern replaces the first occurrence, and
  expands in the replacement text the patterns \<open>$$\<close> (a dollar sign), \<open>$&\<close> (the
  matched text), \<open>$`\<close> (the text before the match) and \<open>$'\<close> (the text after it).
\<close>

fun get_substitution :: "jstring \<Rightarrow> jstring \<Rightarrow> jstring \<Rightarrow> jstring \<Rightarrow> jstring" where
  "get_substitution matched pre post [] = []"
| "get_substitution matched pre post [c] = [c]"
| "get_substitution matched pre post (c # d # r) =
     (if c = 0x24 \<and> d = 0x24 then 0x24 # get_substitution matched pre post r
      else if c = 0x24 \<and> d = 0x26 then matched @ get_substitution matched pre post r
      else if c = 0x24 \<and> d = 0x60 then pre @ get_substitution matched pre post r
      else if c = 0x24 \<and> d = 0x27 then post @ get_substitution matched pre post r
      else c # get_substitution matched pre post (d # r))"

fun find_sub :: "jstring \<Rightarrow> jstring \<Rightarrow> nat option" where
  "find_sub pat [] = (if pat = [] then Some 0 else None)"
| "find_sub pat (c # cs) =
     (if take (length pat) (c # cs) = pat then Some 0 else map_option Suc (find_sub pat cs))"

definition js_replace :: "jstring \<Rightarrow> jstring \<Rightarrow> jstring \<Rightarrow> jstring" where
  "js_replace s pat replacement =
     (case find_sub pat s of
        None \<Rightarrow> s
      | Some i \<Rightarrow>
          take i s
            @ get_substitution pat (take i s) (drop (i + length pat) s) replacement
            @ drop (i + length pat) s)"

text \<open>The explain sentences that \<open>/api/generate\<close> builds for one usage of the request:
  one line per parameter of the definition.\<close>

definition explain_line ::
  "('o jsvalue \<Rightarrow> jstring option) \<Rightarrow> 'o Usage \<Rightarrow> 'o ParamDef \<Rightarrow> jstring" where
  "explain_line JSON_stringify b defParam =
     (let val = find_first (\<lambda>pp. up_key pp = p_key defParam) (u_params b);
          v = nullish_or
                (case val of
                   None \<Rightarrow> JUndefined
                 | Some pp \<Rightarrow> if \<not> is_nullish (up_value pp) then up_value pp else up_default pp)
                (p_default defParam);
          tpl = (case p_explain defParam of
                   None \<Rightarrow> js ''set '' @ p_key defParam @ js '' to {value}''
                 | Some e \<Rightarrow> if e = [] then js ''set '' @ p_key defParam @ js '' to {value}'' else e)
      in js_replace tpl (js ''{value}'') (template_string (JSON_stringify v)))"

definition explains :: "('o jsvalue \<Rightarrow> jstring option) \<Rightarrow> 'o Usage \<Rightarrow> jstring" where
  "explains JSON_stringify b = join [0xA] (map (explain_line JSON_stringify b) (u_def_params b))"

section \<open>A reference JSON codec for scalars\<close>

text \<open>
  The theorems below hold for any \<open>JSON.parse\<close> and \<open>JSON.stringify\<close> and for any
  property table of the host's objects. Concrete inputs are evaluated with this codec
  of the platform's JSON on \<open>null\<close>, booleans, integers and strings:
  \<open>scalar_stringify\<close> renders these values as \<open>JSON.stringify\<close> does (\<open>undefined\<close> and
  functions have no rendering, \<open>Object.prototype\<close> has no enumerable property and is
  rendered as \<open>{}\<close>), and \<open>scalar_parse\<close> reads the text of such a value, giving
  \<open>None\<close> for a text that is not JSON. Texts of other JSON values (fractions,
  exponents, arrays, objects) are outside of it. In the concrete inputs the only
  object that stands in a prototype chain is \<open>Object.prototype\<close>, and \<open>no_host_objects\<close>
  is the empty property table given for the others.
\<close>

definition no_host_objects :: "unit host" where
  "no_host_objects obj k = None"

definition hex_digit_lower :: "nat \<Rightarrow> jschar" where
  "hex_digit_lower d = (if d < 10 then of_nat (0x30 + d) else of_nat (0x61 + (d - 10)))"

fun dec_digits :: "nat \<Rightarrow> jstring" where
  "dec_digits n =
     (if n < 10 then [of_nat (0x30 + n)] else dec_digits (n div 10) @ [of_nat (0x30 + n mod 10)])"

declare dec_digits.simps [simp del]

definition is_high_surrogate :: "jschar \<Rightarrow> bool" where
  "is_high_surrogate c \<longleftrightarrow> 0xD800 \<le> c \<and> c \<le> 0xDBFF"

definition is_low_surrogate :: "jschar \<Rightarrow> bool" where
  "is_low_surrogate c \<longleftrightarrow> 0xDC00 \<le> c \<and> c \<le> 0xDFFF"

definition unicode_escape :: "jschar \<Rightarrow> jstring" where
  "unicode_escape c =
     [0x5C, 0x75] @ map (\<lambda>i. hex_digit_lower ((unat c div 16 ^ i) mod 16)) [3, 2, 1, 0]"

fun quote_json_chars :: "jstring \<Rightarrow> jstring" where
  "quote_json_chars [] = []"
| "quote_json_chars (c # cs) =
     (if c = 0x8 then [0x5C, 0x62] @ quote_json_chars cs
      else if c = 0x9 then [0x5C, 0x74] @ quote_json_chars cs
      else if c = 0xA then [0x5C, 0x6E] @ quote_json_chars cs
      else if c = 0xC then [0x5C, 0x66] @ quote_json_chars cs
      else if c = 0xD then [0x5C, 0x72] @ quote_json_chars cs
      else if c = 0x22 then [0x5C, 0x22] @ quote_json_chars cs
      else if c = 0x5C then [0x5C, 0x5C] @ quote_json_chars cs
      else if c < 0x20 then unicode_escape c @ quote_json_chars cs
      else if is_high_surrogate c then
        (case cs of
           d # ds \<Rightarrow> if is_low_surrogate d then c # d # quote_json_chars ds
                     else unicode_escape c @ quote_json_chars cs
         | [] \<Rightarrow> unicode_escape c)
      else if is_low_surrogate c then unicode_escape c @ quote_json_chars cs
      else c # quote_json_chars cs)"

definition scalar_stringify :: "unit jsvalue \<Rightarrow> jstring option" where
  "scalar_stringify v =
     (case v of
        JUndefined \<Rightarrow> None
      | JNull \<Rightarrow> Some (js ''null'')
      | JBool b \<Rightarrow> Some (if b then js ''true'' else js ''false'')
      | JNum n \<Rightarrow> Some (if n < 0 then 0x2D # dec_digits (nat (- n)) else dec_digits (nat n))
      | JStr s \<Rightarrow> Some ([0x22] @ quote_json_chars s @ [0x22])
      | JObject obj \<Rightarrow> (case obj of ObjectPrototype \<Rightarrow> Some (js ''{}'') | _ \<Rightarrow> None)
      | JOther _ \<Rightarrow> None)"

definition hex_value :: "jschar \<Rightarrow> nat option" where
  "hex_value c =
     (if 0x30 \<le> c \<and> c \<le> 0x39 then Some (unat c - 0x30)
      else if 0x41 \<le> c \<and> c \<le> 0x46 then Some (unat c - 0x41 + 10)
      else if 0x61 \<le> c \<and> c \<le> 0x66 then Some (unat c - 0x61 + 10)
      else None)"

definition simple_escape :: "jschar \<Rightarrow> jschar option" where
  "simple_escape e =
     (if e = 0x22 \<or> e = 0x5C \<or> e = 0x2F then Some e
      else if e = 0x62 then Some 0x8
      else if e = 0x66 then Some 0xC
      else if e = 0x6E then Some 0xA
      else if e = 0x72 then Some 0xD
      else if e = 0x74 then Some 0x9
      else None)"

fun parse_json_string_body :: "jstring \<Rightarrow> jstring option" where
  "parse_json_string_body [] = None"
| "parse_json_string_body (c # cs) =
     (if c = 0x22 then (if cs = [] then Some [] else None)
      else if c = 0x5C then
        (case cs of
           [] \<Rightarrow> None
         | e # r \<Rightarrow>
             if e = 0x75 then
               (case r of
                  h1 # h2 # h3 # h4 # r' \<Rightarrow>
                    (case (hex_value h1, hex_value h2, hex_value h3, hex_value h4) of
                       (Some a, Some b, Some c', Some d) \<Rightarrow>
                         map_option (\<lambda>s. of_nat (((a * 16 + b) * 16 + c') * 16 + d) # s)
                           (parse_json_string_body r')
                     | _ \<Rightarrow> None)
                | _ \<Rightarrow> None)
             else (case simple_escape e of
                     None \<Rightarrow> None
                   | Some x \<Rightarrow> map_option (\<lambda>s. x # s) (parse_json_string_body r)))
      else if c < 0x20 then None
      else map_option (\<lambda>s. c # s) (parse_json_string_body cs))"

definition is_json_ws :: "jschar \<Rightarrow> bool" where
  "is_json_ws c \<longleftrightarrow> c = 0x20 \<or> c = 0x9 \<or> c = 0xA \<or> c = 0xD"

definition is_digit :: "jschar \<Rightarrow> bool" where
  "is_digit c \<longleftrightarrow> 0x30 \<le> c \<and> c \<le> 0x39"

definition parse_json_int :: "jstring \<Rightarrow> int option" where
  "parse_json_int t =
     (let neg = (t \<noteq> [] \<and> hd t = 0x2D);
          ds = (if neg then tl t else t)
      in if ds \<noteq> [] \<and> list_all is_digit ds \<and> (ds = [0x30] \<or> hd ds \<noteq> 0x30) \<and> \<not> (neg \<and> ds = [0x30])
         then (let n = foldl (\<lambda>a d. 10 * a + (int (unat d) - 0x30)) 0 ds
               in Some (if neg then - n else n))
         else None)"

definition scalar_parse :: "jstring \<Rightarrow> unit jsvalue option" where
  "scalar_parse text =
     (let t = rev (dropWhile is_json_ws (rev (dropWhile is_json_ws text)))
      in if t = js ''null'' then Some JNull
         else if t = js ''true'' then Some (JBool True)
         else if t = js ''false'' then Some (JBool False)
         else (case t of
                 [] \<Rightarrow> None
               | c # cs \<Rightarrow>
                   if c = 0x22 then map_option JStr (parse_json_string_body cs)
                   else map_option JNum (parse_json_int t)))"

section \<open>Attribute encoding of a token\<close>

text \<open>
  \<open>encodeAttr\<close> and \<open>decodeAttr\<close> are compositions of platform functions, modelled
  here after their standards: \<open>encodeURIComponent\<close> (UTF-8 octets of the code points,
  percent-escaped unless the character is unreserved; \<open>URIError\<close> on an unpaired
  surrogate), \<open>unescape\<close>, \<open>btoa\<close> (Base64 of a string of octets) and their
  inverses \<open>atob\<close> (forgiving Base64 decoding), \<open>escape\<close> and
  \<open>decodeURIComponent\<close> (\<open>URIError\<close> on a malformed escape or on octets that are
  not the UTF-8 encoding of a code point). Octets and code points are natural numbers.
\<close>

definition is_alnum :: "jschar \<Rightarrow> bool" where
  "is_alnum c \<longleftrightarrow> (0x30 \<le> c \<and> c \<le> 0x39) \<or> (0x41 \<le> c \<and> c \<le> 0x5A) \<or> (0x61 \<le> c \<and> c \<le> 0x7A)"

definition is_uri_unescaped :: "jschar \<Rightarrow> bool" where
  "is_uri_unescaped c \<longleftrightarrow> is_alnum c \<or> c \<in> set (js ''-_.!~*'' @ [0x27] @ js ''()'')"

definition hex_digit_upper :: "nat \<Rightarrow> jschar" where
  "hex_digit_upper d = (if d < 10 then of_nat (0x30 + d) else of_nat (0x41 + (d - 10)))"

definition percent_octet :: "nat \<Rightarrow> jstring" where
  "percent_octet b = [0x25, hex_digit_upper (b div 16), hex_digit_upper (b mod 16)]"

definition utf8_encode :: "nat \<Rightarrow> nat list" where
  "utf8_encode cp =
     (if cp < 0x80 then [cp]
      else if cp < 0x800 then [0xC0 + cp div 64, 0x80 + cp mod 64]
      else if cp < 0x10000 then [0xE0 + cp div 4096, 0x80 + (cp div 64) mod 64, 0x80 + cp mod 64]
      else [0xF0 + cp div 262144, 0x80 + (cp div 4096) mod 64, 0x80 + (cp div 64) mod 64,
            0x80 + cp mod 64])"

definition surrogate_pair_cp :: "jschar \<Rightarrow> jschar \<Rightarrow> nat" where
  "surrogate_pair_cp hi lo = (unat hi - 0xD800) * 0x400 + (unat lo - 0xDC00) + 0x10000"

fun encodeURIComponent :: "jstring \<Rightarrow> jserror + jstring" where
  "encodeURIComponent [] = Inr []"
| "encodeURIComponent (c # cs) =
     (if is_uri_unescaped c then
        (case encodeURIComponent cs of Inl e \<Rightarrow> Inl e | Inr r \<Rightarrow> Inr (c # r))
      else if is_low_surrogate c then Inl URIError
      else if is_high_surrogate c then
        (case cs of
           [] \<Rightarrow> Inl URIError
         | d # ds \<Rightarrow>
             if is_low_surrogate d then
               (case encodeURIComponent ds of
                  Inl e \<Rightarrow> Inl e
                | Inr r \<Rightarrow> Inr (concat (map percent_octet (utf8_encode (surrogate_pair_cp c d))) @ r))
             else Inl URIError)
      else (case encodeURIComponent cs of
              Inl e \<Rightarrow> Inl e
            | Inr r \<Rightarrow> Inr (concat (map percent_octet (utf8_encode (unat c))) @ r)))"

definition hex_octet :: "jschar \<Rightarrow> jschar \<Rightarrow> nat option" where
  "hex_octet h1 h2 =
     (case (hex_value h1, hex_value h2) of (Some a, Some b) \<Rightarrow> Some (a * 16 + b) | _ \<Rightarrow> None)"

definition unescape_octet :: "jstring \<Rightarrow> (jschar \<times> jstring) option" where
  "unescape_octet cs =
     (case cs of
        h1 # h2 # r \<Rightarrow> map_option (\<lambda>b. (of_nat b, r)) (hex_octet h1 h2)
      | _ \<Rightarrow> None)"

definition unescape_step :: "jstring \<Rightarrow> (jschar \<times> jstring) option" where
  "unescape_step cs =
     (case cs of
        u # h1 # h2 # h3 # h4 # r \<Rightarrow>
          (case (u = 0x75, hex_octet h1 h2, hex_octet h3 h4) of
             (True, Some a, Some b) \<Rightarrow> Some (of_nat (a * 256 + b), r)
           | _ \<Rightarrow> unescape_octet cs)
      | _ \<Rightarrow> unescape_octet cs)"

lemma unescape_octet_length: "unescape_octet cs = Some (x, r) \<Longrightarrow> length r < length cs"
  by (auto simp: unescape_octet_def split: list.splits)

lemma unescape_step_length: "unescape_step cs = Some (x, r) \<Longrightarrow> length r < length cs"
  by (auto simp: unescape_step_def split: list.splits bool.splits option.splits
      dest: unescape_octet_length)

function unescape :: "jstring \<Rightarrow> jstring" where
  "unescape [] = []"
| "unescape (c # cs) =
     (if c = 0x25 then
        (case unescape_step cs of
           Some (x, r) \<Rightarrow> x # unescape r
         | None \<Rightarrow> c # unescape cs)
      else c # unescape cs)"
  by pat_completeness auto
termination
proof (relation "measure length")
  show "wf (measure length)" by simp
next
  fix c :: jschar and cs x2 x r
  assume "unescape_step cs = Some x2" "(x, r) = x2"
  then have "length r < length cs" by (metis unescape_step_length)
  then show "(r, c # cs) \<in> measure length" by simp
qed simp_all

definition base64_char :: "nat \<Rightarrow> jschar" where
  "base64_char n =
     (if n < 26 then of_nat (0x41 + n)
      else if n < 52 then of_nat (0x61 + (n - 26))
      else if n < 62 then of_nat (0x30 + (n - 52))
      else if n = 62 then 0x2B else 0x2F)"

fun base64_encode :: "nat list \<Rightarrow> jstring" where
  "base64_encode [] = []"
| "base64_encode [a] = [base64_char (a div 4), base64_char ((a mod 4) * 16), 0x3D, 0x3D]"
| "base64_encode [a, b] =
     [base64_char (a div 4), base64_char ((a mod 4) * 16 + b div 16),
      base64_char ((b mod 16) * 4), 0x3D]"
| "base64_encode (a # b # c # r) =
     [base64_char (a div 4), base64_char ((a mod 4) * 16 + b div 16),
      base64_char ((b mod 16) * 4 + c div 64), base64_char (c mod 64)] @ base64_encode r"

definition btoa :: "jstring \<Rightarrow> jserror + jstring" where
  "btoa s =
     (if \<exists>c \<in> set s. c > 0xFF then Inl InvalidCharacterError
      else Inr (base64_encode (map unat s)))"

definition base64_value :: "jschar \<Rightarrow> nat option" where
  "base64_value c =
     (if 0x41 \<le> c \<and> c \<le> 0x5A then Some (unat c - 0x41)
      else if 0x61 \<le> c \<and> c \<le> 0x7A then Some (unat c - 0x61 + 26)
      else if 0x30 \<le> c \<and> c \<le> 0x39 then Some (unat c - 0x30 + 52)
      else if c = 0x2B then Some 62
      else if c = 0x2F then Some 63
      else None)"

fun base64_decode :: "nat list \<Rightarrow> nat list" where
  "base64_decode (a # b # c # d # r) =
     [a * 4 + b div 16, (b mod 16) * 16 + c div 4, (c mod 4) * 64 + d] @ base64_decode r"
| "base64_decode [a, b, c] = [a * 4 + b div 16, (b mod 16) * 16 + c div 4]"
| "base64_decode [a, b] = [a * 4 + b div 16]"
| "base64_decode _ = []"

definition is_ascii_whitespace :: "jschar \<Rightarrow> bool" where
  "is_ascii_whitespace c \<longleftrightarrow> c = 0x9 \<or> c = 0xA \<or> c = 0xC \<or> c = 0xD \<or> c = 0x20"

definition strip_padding :: "jstring \<Rightarrow> jstring" where
  "strip_padding d =
     (if length d mod 4 = 0 then
        (if length d \<ge> 2 \<and> drop (length d - 2) d = [0x3D, 0x3D] then take (length d - 2) d
         else if length d \<ge> 1 \<and> drop (length d - 1) d = [0x3D] then take (length d - 1) d
         else d)
      else d)"

definition atob :: "jstring \<Rightarrow> jserror + jstring" where
  "atob s =
     (let d = strip_padding (filter (\<lambda>c. \<not> is_ascii_whitespace c) s)
      in if length d mod 4 = 1 then Inl InvalidCharacterError
         else if \<exists>c \<in> set d. base64_value c = None then Inl InvalidCharacterError
         else Inr (map of_nat (base64_decode (map (\<lambda>c. the (base64_value c)) d))))"

definition is_escape_unescaped :: "jschar \<Rightarrow> bool" where
  "is_escape_unescaped c \<longleftrightarrow> is_alnum c \<or> c \<in> set (js ''@*_+-./'')"

definition escape_unit :: "jschar \<Rightarrow> jstring" where
  "escape_unit c =
     (if is_escape_unescaped c then [c]
      else if c < 0x100 then percent_octet (unat c)
      else [0x25, 0x75] @ map (\<lambda>i. hex_digit_upper ((unat c div 16 ^ i) mod 16)) [3, 2, 1, 0])"

definition escape :: "jstring \<Rightarrow> jstring" where
  "escape s = concat (map escape_unit s)"

definition leading_ones :: "nat \<Rightarrow> nat" where
  "leading_ones b =
     (if b < 0x80 then 0 else if b < 0xC0 then 1 else if b < 0xE0 then 2
      else if b < 0xF0 then 3 else if b < 0xF8 then 4 else 5)"

fun cont_octets :: "nat \<Rightarrow> jstring \<Rightarrow> (nat list \<times> jstring) option" where
  "cont_octets 0 s = Some ([], s)"
| "cont_octets (Suc k) (p # h1 # h2 # r) =
     (if p = 0x25 then
        (case hex_octet h1 h2 of
           None \<Rightarrow> None
         | Some b \<Rightarrow> map_option (\<lambda>(bs, r'). (b # bs, r')) (cont_octets k r))
      else None)"
| "cont_octets (Suc k) _ = None"

definition is_scalar_value :: "nat \<Rightarrow> bool" where
  "is_scalar_value cp \<longleftrightarrow> cp < 0xD800 \<or> (0xE000 \<le> cp \<and> cp < 0x110000)"

definition utf8_decode_cp :: "nat list \<Rightarrow> nat option" where
  "utf8_decode_cp octets =
     (let cp = (case octets of
                  [b0, b1] \<Rightarrow> (b0 mod 32) * 64 + b1 mod 64
                | [b0, b1, b2] \<Rightarrow> ((b0 mod 16) * 64 + b1 mod 64) * 64 + b2 mod 64
                | [b0, b1, b2, b3] \<Rightarrow> (((b0 mod 8) * 64 + b1 mod 64) * 64 + b2 mod 64) * 64 + b3 mod 64
                | _ \<Rightarrow> 0)
      in if is_scalar_value cp \<and> utf8_encode cp = octets then Some cp else None)"

definition utf16_encode :: "nat \<Rightarrow> jstring" where
  "utf16_encode cp =
     (if cp < 0x10000 then [of_nat cp]
      else [of_nat (0xD800 + (cp - 0x10000) div 0x400), of_nat (0xDC00 + (cp - 0x10000) mod 0x400)])"

lemma cont_octets_length: "cont_octets k s = Some (bs, r) \<Longrightarrow> length r \<le> length s"
proof (induction k s arbitrary: bs r rule: cont_octets.induct)
  case (1 s)
  then show ?case by simp
next
  case (2 k p h1 h2 r0)
  then show ?case
    by (auto split: if_splits option.splits prod.splits) fastforce
qed simp_all

function decodeURIComponent :: "jstring \<Rightarrow> jserror + jstring" where
  "decodeURIComponent [] = Inr []"
| "decodeURIComponent (c # cs) =
     (if c \<noteq> 0x25 then
        (case decodeURIComponent cs of Inl e \<Rightarrow> Inl e | Inr out \<Rightarrow> Inr (c # out))
      else
        (case cs of
           h1 # h2 # r \<Rightarrow>
             (case hex_octet h1 h2 of
                None \<Rightarrow> Inl URIError
              | Some b \<Rightarrow>
                  if leading_ones b = 0 then
                    (case decodeURIComponent r of Inl e \<Rightarrow> Inl e | Inr out \<Rightarrow> Inr (of_nat b # out))
                  else if leading_ones b = 1 \<or> leading_ones b > 4 then Inl URIError
                  else
                    (case cont_octets (leading_ones b - 1) r of
                       None \<Rightarrow> Inl URIError
                     | Some (bs, r') \<Rightarrow>
                         (case utf8_decode_cp (b # bs) of
                            None \<Rightarrow> Inl URIError
                          | Some cp \<Rightarrow>
                              (case decodeURIComponent r' of
                                 Inl e \<Rightarrow> Inl e
                               | Inr out \<Rightarrow> Inr (utf16_encode cp @ out)))))
         | _ \<Rightarrow> Inl URIError))"
  by pat_completeness auto
termination
proof (relation "measure length")
  show "wf (measure length)" by simp
next
  fix c :: jschar and cs :: jstring show "(cs, c # cs) \<in> measure length" by simp
next
  fix c :: jschar and cs :: jstring and h1 t1 h2 r and b :: nat
  assume "cs = h1 # t1" "t1 = h2 # r"
  then show "(r, c # cs) \<in> measure length" by simp
next
  fix c :: jschar and cs :: jstring and h1 t1 h2 r and b :: nat and x bs r' and cp :: nat
  assume "cs = h1 # t1" "t1 = h2 # r" "cont_octets (leading_ones b - 1) r = Some x" "(bs, r') = x"
  then have "length r' \<le> length r" by (metis cont_octets_length)
  with \<open>cs = h1 # t1\<close> \<open>t1 = h2 # r\<close> show "(r', c # cs) \<in> measure length" by simp
qed

text \<open>The two helpers of the source. \<open>decodeAttr\<close> returns its argument when a step
  raises.\<close>

definition encodeAttr :: "jstring \<Rightarrow> jserror + jstring" where
  "encodeAttr s = (case encodeURIComponent s of Inl e \<Rightarrow> Inl e | Inr u \<Rightarrow> btoa (unescape u))"

definition decodeAttr :: "jstring \<Rightarrow> jstring" where
  "decodeAttr s =
     (case atob s of
        Inl e \<Rightarrow> s
      | Inr b \<Rightarrow> (case decodeURIComponent (escape b) of Inl e \<Rightarrow> s | Inr out \<Rightarrow> out))"

text \<open>Well-formed UTF-16: every surrogate code unit is part of a pair. \<open>utf8_of\<close> is the
  sequence of UTF-8 octets of the code points of a string.\<close>

fun well_formed_utf16 :: "jstring \<Rightarrow> bool" where
  "well_formed_utf16 [] = True"
| "well_formed_utf16 (c # cs) =
     (if is_high_surrogate c then
        (case cs of [] \<Rightarrow> False | d # ds \<Rightarrow> is_low_surrogate d \<and> well_formed_utf16 ds)
      else \<not> is_low_surrogate c \<and> well_formed_utf16 cs)"

fun utf8_of :: "jstring \<Rightarrow> nat list" where
  "utf8_of [] = []"
| "utf8_of (c # cs) =
     (if is_high_surrogate c then
        (case cs of
           [] \<Rightarrow> utf8_encode (unat c)
         | d # ds \<Rightarrow> utf8_encode (surrogate_pair_cp c d) @ utf8_of ds)
      else utf8_encode (unat c) @ utf8_of cs)"

text \<open>The six-bit groups and the padding that make up the Base64 text of a list of
  octets.\<close>

fun base64_sextets :: "nat list \<Rightarrow> nat list" where
  "base64_sextets [] = []"
| "base64_sextets [a] = [a div 4, (a mod 4) * 16]"
| "base64_sextets [a, b] = [a div 4, (a mod 4) * 16 + b div 16, (b mod 16) * 4]"
| "base64_sextets (a # b # c # r) =
     [a div 4, (a mod 4) * 16 + b div 16, (b mod 16) * 4 + c div 64, c mod 64] @ base64_sextets r"

fun base64_padding :: "nat list \<Rightarrow> jstring" where
  "base64_padding [] = []"
| "base64_padding [a] = [0x3D, 0x3D]"
| "base64_padding [a, b] = [0x3D]"
| "base64_padding (a # b # c # r) = base64_padding r"

section \<open>Rich prompt editor\<close>

text \<open>
  \<open>escapeHTML\<close>, \<open>blockLabelFor\<close> and \<open>tokenColor\<close>. The hue of a definition is an
  integer (the source draws it as \<open>Math.floor(Math.random()*360)\<close>), and a template
  literal renders such a number in decimal. \<open>tokenColor\<close> returns the three colour
  strings \<open>bg\<close>, \<open>bd\<close> and \<open>fg\<close>.
\<close>

definition escapeHTML_unit :: "jschar \<Rightarrow> jstring" where
  "escapeHTML_unit c =
     (if c = 0x26 then js ''&amp;'' else if c = 0x3C then js ''&lt;''
      else if c = 0x3E then js ''&gt;'' else [c])"

definition escapeHTML :: "jstring \<Rightarrow> jstring" where
  "escapeHTML s = concat (map escapeHTML_unit s)"

definition blockLabelFor :: "jstring \<Rightarrow> jstring" where
  "blockLabelFor ident = js ''Block '' @ drop (length ident - 4) ident"

definition number_string :: "int \<Rightarrow> jstring" where
  "number_string n = (if n < 0 then 0x2D # dec_digits (nat (- n)) else dec_digits (nat n))"

definition tokenColor :: "jstring \<Rightarrow> int option \<Rightarrow> jstring \<times> jstring \<times> jstring" where
  "tokenColor ident hue =
     (let h = (case hue of
                 Some h \<Rightarrow> h
               | None \<Rightarrow> foldl (\<lambda>h c. (h * 31 + int (unat c)) mod 360) 0 ident)
      in (js ''hsla('' @ number_string h @ js '', 70%, 28%, 0.40)'',
          js ''hsla('' @ number_string h @ js '', 85%, 62%, 0.60)'',
          js ''#e9eef5''))"

text \<open>
  The markup of one token: a \<open>span\<close> of class \<open>block-token\<close> that carries the index of
  the token, the encoded token text and the encoded block id in attributes, and holds a
  second \<open>span\<close> with the escaped label.
\<close>

definition token_markup ::
  "nat \<Rightarrow> jstring \<Rightarrow> jstring \<Rightarrow> jstring \<times> jstring \<times> jstring \<Rightarrow> jstring \<Rightarrow> jstring" where
  \<open>token_markup i token block_id color label =
     (case color of (bg, bd, fg) \<Rightarrow>
        js ''<span class="block-token" role="button" tabindex="0" data-token-index="''
        @ number_string (int i)
        @ js ''" data-token="'' @ token
        @ js ''" data-block-id="'' @ block_id
        @ js ''" contenteditable="false" style="cursor:pointer;display:inline-flex;''
        @ js ''align-items:center;gap:8px;padding:4px 10px;border-radius:999px;background:''
        @ bg @ js '';color:'' @ fg @ js '';border:1px solid '' @ bd @ js '';">''
        @ js ''<span style="font-weight:700;">'' @ escapeHTML label @ js ''</span>''
        @ js ''</span>'')\<close>

text \<open>
  \<open>renderPromptHTML\<close> collects the pieces of markup in \<open>parts\<close>, the escaped text
  between tokens and the markup of each token, and joins them. \<open>encodeAttr\<close> may
  raise.
\<close>

fun render_parts ::
  "jstring \<Rightarrow> 'o Block list \<Rightarrow> nat \<Rightarrow> nat \<Rightarrow> RegexMatch list \<Rightarrow> jserror + jstring list" where
  "render_parts text blocks last_end i [] =
     Inr (if last_end < length text then [escapeHTML (drop last_end text)] else [])"
| "render_parts text blocks last_end i (m # ms) =
     (let start = m_index m;
          end_pos = start + length (m_all m);
          leading = (if start > last_end
                     then [escapeHTML (take (start - last_end) (drop last_end text))] else []);
          ident = m_id m;
          blk = find_first (\<lambda>b. d_id (b_def b) = ident) blocks;
          color = tokenColor ident (case blk of None \<Rightarrow> None | Some b \<Rightarrow> d_hue (b_def b));
          label = (case blk of
                     None \<Rightarrow> blockLabelFor ident
                   | Some b \<Rightarrow> if d_name (b_def b) \<noteq> [] then d_name (b_def b)
                               else blockLabelFor ident)
      in case encodeAttr (m_all m) of
           Inl e \<Rightarrow> Inl e
         | Inr token \<Rightarrow>
             (case encodeAttr ident of
                Inl e \<Rightarrow> Inl e
              | Inr block_id \<Rightarrow>
                  (case render_parts text blocks end_pos (Suc i) ms of
                     Inl e \<Rightarrow> Inl e
                   | Inr rest \<Rightarrow>
                       Inr (leading @ [token_markup i token block_id color label] @ rest))))"

definition renderPromptHTML :: "jstring \<Rightarrow> 'o Block list \<Rightarrow> jserror + jstring" where
  "renderPromptHTML text blocks =
     (case render_parts text blocks 0 0 (regex_matches text) of
        Inl e \<Rightarrow> Inl e
      | Inr parts \<Rightarrow> Inr (concat parts))"



section \<open>The HTML parser behind \<open>innerHTML\<close>\<close>

text \<open>
  The assignment \<open>el.innerHTML = renderPromptHTML(prompt)\<close> runs the HTML fragment
  parser, with the editor \<open>div\<close> as context, on the joined markup and makes the
  resulting nodes the children of the editor. The parser is modelled after the HTML
  standard as far as the markup of the editor needs it: the input stream with its line
  ends normalized, the tokenizer as a state machine that consumes one character at a
  time, and the tree construction of the insertion mode ``in body'' for character
  tokens and for the start and end tags of \<open>span\<close>. What lies outside gives \<open>None\<close>:
  a tag of another name, a comment or declaration, a self-closing tag, an attribute value
  that is not in double quotes or that holds \<open>&\<close>, and a character reference other
  than \<open>&amp;\<close>, \<open>&lt;\<close> and \<open>&gt;\<close>.
\<close>

datatype dom_node =
    DomText jstring
  | DomElement jstring "(jstring \<times> jstring) list" "dom_node list"

text \<open>Preprocessing of the input stream: \<open>CR LF\<close> and a single \<open>CR\<close> become \<open>LF\<close>.\<close>

fun normalize_newlines :: "jstring \<Rightarrow> jstring" where
  "normalize_newlines [] = []"
| "normalize_newlines [c] = [if c = 0xD then 0xA else c]"
| "normalize_newlines (c # d # cs) =
     (if c = 0xD \<and> d = 0xA then 0xA # normalize_newlines cs
      else if c = 0xD then 0xA # normalize_newlines (d # cs)
      else c # normalize_newlines (d # cs))"

datatype tokenizer_state =
    Data
  | CharacterReference jstring
  | TagOpen
  | EndTagOpen
  | TagName
  | BeforeAttributeName
  | AttributeName
  | AfterAttributeName
  | BeforeAttributeValue
  | AttributeValueDoubleQuoted
  | AfterAttributeValueQuoted

text \<open>
  The state of the parser: the state of the tokenizer, the tag token under construction
  (end tag or start tag, name, finished attributes, attribute under construction), the
  stack of open elements above the root with the current node first, each with the
  children it has so far, and the children of the root.
\<close>

record parser =
  p_state :: tokenizer_state
  p_end_tag :: bool
  p_tag_name :: jstring
  p_attributes :: "(jstring \<times> jstring) list"
  p_attribute :: "(jstring \<times> jstring) option"
  p_open :: "(jstring \<times> (jstring \<times> jstring) list \<times> dom_node list) list"
  p_children :: "dom_node list"

definition initial_parser :: parser where
  "initial_parser =
     \<lparr>p_state = Data, p_end_tag = False, p_tag_name = [], p_attributes = [], p_attribute = None,
      p_open = [], p_children = []\<rparr>"

definition is_ascii_alpha :: "jschar \<Rightarrow> bool" where
  "is_ascii_alpha c \<longleftrightarrow> (0x41 \<le> c \<and> c \<le> 0x5A) \<or> (0x61 \<le> c \<and> c \<le> 0x7A)"

definition is_html_space :: "jschar \<Rightarrow> bool" where
  "is_html_space c \<longleftrightarrow> c = 0x9 \<or> c = 0xA \<or> c = 0xC \<or> c = 0x20"

text \<open>A character of a tag name or of an attribute name: upper case letters are made
  lower case, \<open>NUL\<close> becomes U+FFFD.\<close>

definition name_char :: "jschar \<Rightarrow> jschar" where
  "name_char c = (if c = 0x0 then 0xFFFD else if 0x41 \<le> c \<and> c \<le> 0x5A then c + 0x20 else c)"

text \<open>
  Tree construction. A character token is appended to the text node that ends the
  children of the current node, or becomes a new text node; \<open>NUL\<close> is ignored. A start
  tag puts a new element on the stack; an end tag pops the current node, which
  is a \<open>span\<close> whenever the stack is not empty, and is ignored when only the root is
  open. At the end of the input all open elements are closed.
\<close>

fun append_text :: "jschar \<Rightarrow> dom_node list \<Rightarrow> dom_node list" where
  "append_text c [] = [DomText [c]]"
| "append_text c [DomText t] = [DomText (t @ [c])]"
| "append_text c [DomElement tag attrs children] = [DomElement tag attrs children, DomText [c]]"
| "append_text c (n # m # ns) = n # append_text c (m # ns)"

definition emit_character :: "jschar \<Rightarrow> parser \<Rightarrow> parser" where
  "emit_character c p =
     (if c = 0x0 then p
      else (case p_open p of
              [] \<Rightarrow> p\<lparr>p_children := append_text c (p_children p)\<rparr>
            | (tag, attrs, children) # below \<Rightarrow>
                p\<lparr>p_open := (tag, attrs, append_text c children) # below\<rparr>))"

fun close_elements ::
  "nat \<Rightarrow> (jstring \<times> (jstring \<times> jstring) list \<times> dom_node list) list \<Rightarrow> dom_node list
     \<Rightarrow> (jstring \<times> (jstring \<times> jstring) list \<times> dom_node list) list \<times> dom_node list" where
  "close_elements 0 stack root = (stack, root)"
| "close_elements (Suc n) [] root = ([], root)"
| "close_elements (Suc n) [(tag, attrs, children)] root =
     ([], root @ [DomElement tag attrs children])"
| "close_elements (Suc n) ((tag, attrs, children) # (tag', attrs', children') # below) root =
     close_elements n ((tag', attrs', children' @ [DomElement tag attrs children]) # below) root"

text \<open>An attribute whose name is already on the tag token is dropped.\<close>

definition finished_attributes :: "parser \<Rightarrow> (jstring \<times> jstring) list" where
  "finished_attributes p =
     (case p_attribute p of
        None \<Rightarrow> p_attributes p
      | Some (n, v) \<Rightarrow>
          if map_of (p_attributes p) n = None then p_attributes p @ [(n, v)] else p_attributes p)"

definition emit_tag :: "parser \<Rightarrow> parser option" where
  "emit_tag p =
     (let q = p\<lparr>p_state := Data, p_end_tag := False, p_tag_name := [], p_attributes := [],
                p_attribute := None\<rparr>
      in if p_tag_name p \<noteq> js ''span'' then None
         else if p_end_tag p then
           (case close_elements 1 (p_open p) (p_children p) of
              (stack, root) \<Rightarrow> Some (q\<lparr>p_open := stack, p_children := root\<rparr>))
         else Some (q\<lparr>p_open := (p_tag_name p, finished_attributes p, []) # p_open p\<rparr>))"

text \<open>The tokenizer, state by state.\<close>

definition data_step :: "parser \<Rightarrow> jschar \<Rightarrow> parser option" where
  "data_step p c =
     (if c = 0x26 then Some (p\<lparr>p_state := CharacterReference []\<rparr>)
      else if c = 0x3C then Some (p\<lparr>p_state := TagOpen\<rparr>)
      else Some (emit_character c p))"

definition attribute_name_step :: "parser \<Rightarrow> jschar \<Rightarrow> parser option" where
  "attribute_name_step p c =
     (if is_html_space c then Some (p\<lparr>p_state := AfterAttributeName\<rparr>)
      else if c = 0x2F then None
      else if c = 0x3E then emit_tag p
      else if c = 0x3D then Some (p\<lparr>p_state := BeforeAttributeValue\<rparr>)
      else Some (p\<lparr>p_attribute :=
                    (case p_attribute p of
                       None \<Rightarrow> Some ([name_char c], [])
                     | Some (n, v) \<Rightarrow> Some (n @ [name_char c], v))\<rparr>))"

definition start_attribute :: "parser \<Rightarrow> jstring \<Rightarrow> parser" where
  "start_attribute p n =
     p\<lparr>p_state := AttributeName, p_attributes := finished_attributes p, p_attribute := Some (n, [])\<rparr>"

definition before_attribute_name_step :: "parser \<Rightarrow> jschar \<Rightarrow> parser option" where
  "before_attribute_name_step p c =
     (if is_html_space c then Some (p\<lparr>p_state := BeforeAttributeName\<rparr>)
      else if c = 0x2F then None
      else if c = 0x3E then emit_tag p
      else if c = 0x3D then Some (start_attribute p [c])
      else attribute_name_step (start_attribute p []) c)"

definition step :: "parser \<Rightarrow> jschar \<Rightarrow> parser option" where
  "step p c =
     (case p_state p of
        Data \<Rightarrow> data_step p c
      | CharacterReference name \<Rightarrow>
          if is_alnum c then Some (p\<lparr>p_state := CharacterReference (name @ [c])\<rparr>)
          else if name = [] then
            (if c = 0x23 then None else data_step (emit_character 0x26 (p\<lparr>p_state := Data\<rparr>)) c)
          else if c = 0x3B \<and> name = js ''amp'' then Some (emit_character 0x26 (p\<lparr>p_state := Data\<rparr>))
          else if c = 0x3B \<and> name = js ''lt'' then Some (emit_character 0x3C (p\<lparr>p_state := Data\<rparr>))
          else if c = 0x3B \<and> name = js ''gt'' then Some (emit_character 0x3E (p\<lparr>p_state := Data\<rparr>))
          else None
      | TagOpen \<Rightarrow>
          if c = 0x2F then Some (p\<lparr>p_state := EndTagOpen\<rparr>)
          else if is_ascii_alpha c then
            Some (p\<lparr>p_state := TagName, p_end_tag := False, p_tag_name := [name_char c],
                     p_attributes := [], p_attribute := None\<rparr>)
          else if c = 0x21 \<or> c = 0x3F then None
          else data_step (emit_character 0x3C (p\<lparr>p_state := Data\<rparr>)) c
      | EndTagOpen \<Rightarrow>
          if is_ascii_alpha c then
            Some (p\<lparr>p_state := TagName, p_end_tag := True, p_tag_name := [name_char c],
                     p_attributes := [], p_attribute := None\<rparr>)
          else if c = 0x3E then Some (p\<lparr>p_state := Data\<rparr>)
          else None
      | TagName \<Rightarrow>
          if is_html_space c then Some (p\<lparr>p_state := BeforeAttributeName\<rparr>)
          else if c = 0x2F then None
          else if c = 0x3E then emit_tag p
          else Some (p\<lparr>p_tag_name := p_tag_name p @ [name_char c]\<rparr>)
      | BeforeAttributeName \<Rightarrow> before_attribute_name_step p c
      | AttributeName \<Rightarrow> attribute_name_step p c
      | AfterAttributeName \<Rightarrow>
          if is_html_space c then Some p
          else if c = 0x2F then None
          else if c = 0x3D then Some (p\<lparr>p_state := BeforeAttributeValue\<rparr>)
          else if c = 0x3E then emit_tag p
          else attribute_name_step (start_attribute p []) c
      | BeforeAttributeValue \<Rightarrow>
          if is_html_space c then Some p
          else if c = 0x22 then Some (p\<lparr>p_state := AttributeValueDoubleQuoted\<rparr>)
          else if c = 0x3E then emit_tag p
          else None
      | AttributeValueDoubleQuoted \<Rightarrow>
          if c = 0x22 then Some (p\<lparr>p_state := AfterAttributeValueQuoted\<rparr>)
          else if c = 0x26 then None
          else Some (p\<lparr>p_attribute :=
                        (case p_attribute p of
                           None \<Rightarrow> None
                         | Some (n, v) \<Rightarrow> Some (n, v @ [if c = 0x0 then 0xFFFD else c]))\<rparr>)
      | AfterAttributeValueQuoted \<Rightarrow>
          if is_html_space c then Some (p\<lparr>p_state := BeforeAttributeName\<rparr>)
          else if c = 0x2F then None
          else if c = 0x3E then emit_tag p
          else before_attribute_name_step p c)"

definition feed :: "parser option \<Rightarrow> jschar \<Rightarrow> parser option" where
  "feed s c = (case s of None \<Rightarrow> None | Some p \<Rightarrow> step p c)"

text \<open>The end of the input: pending characters are emitted, a tag that is not finished is
  dropped, a character reference that has begun is outside the model.\<close>

definition finish :: "parser \<Rightarrow> dom_node list option" where
  "finish p =
     (let close = (\<lambda>q. snd (close_elements (length (p_open q)) (p_open q) (p_children q)))
      in case p_state p of
           CharacterReference name \<Rightarrow>
             if name = [] then Some (close (emit_character 0x26 p)) else None
         | TagOpen \<Rightarrow> Some (close (emit_character 0x3C p))
         | EndTagOpen \<Rightarrow> Some (close (emit_character 0x2F (emit_character 0x3C p)))
         | _ \<Rightarrow> Some (close p))"

definition set_innerHTML :: "jstring \<Rightarrow> dom_node list option" where
  "set_innerHTML markup =
     (case foldl feed (Some initial_parser) (normalize_newlines markup) of
        None \<Rightarrow> None
      | Some p \<Rightarrow> finish p)"

text \<open>
  \<open>textFromEditor\<close> on the child nodes of the editor element: a text node gives its
  text, an element whose class list holds \<open>block-token\<close> the decoded \<open>data-token\<close>
  attribute without a visit to its children, any other element the texts of its children.
  The class list is the value of the \<open>class\<close> attribute split at ASCII white space.
\<close>

fun split_on_whitespace :: "jstring \<Rightarrow> jstring list" where
  "split_on_whitespace [] = [[]]"
| "split_on_whitespace (c # cs) =
     (if is_ascii_whitespace c then [] # split_on_whitespace cs
      else (case split_on_whitespace cs of
              [] \<Rightarrow> [[c]]
            | t # ts \<Rightarrow> (c # t) # ts))"

definition classList :: "(jstring \<times> jstring) list \<Rightarrow> jstring list" where
  "classList attributes =
     (case map_of attributes (js ''class'') of
        None \<Rightarrow> []
      | Some v \<Rightarrow> filter (\<lambda>t. t \<noteq> []) (split_on_whitespace v))"

fun visit :: "dom_node \<Rightarrow> jstring" where
  "visit (DomText t) = t"
| "visit (DomElement tag attributes children) =
     (if js ''block-token'' \<in> set (classList attributes)
      then decodeAttr (case map_of attributes (js ''data-token'') of None \<Rightarrow> [] | Some t \<Rightarrow> t)
      else concat (map visit children))"

definition textFromEditor :: "dom_node list \<Rightarrow> jstring" where
  "textFromEditor childNodes = concat (map visit childNodes)"



section \<open>Example data\<close>

text \<open>A block definition with a number and a text parameter, used where a theorem is
  evaluated on a concrete input.\<close>

abbreviation ex_speed :: "unit ParamDef" where
  "ex_speed \<equiv> \<lparr>p_key = js ''speed'', p_label = js ''speed'', p_type = PNumber,
      p_default = JNum 1, p_explain = Some (js ''set the animation speed to {value}'')\<rparr>"

abbreviation ex_title :: "unit ParamDef" where
  "ex_title \<equiv> \<lparr>p_key = js ''title'', p_label = js ''title'', p_type = PText,
      p_default = JStr (js ''Hi''), p_explain = Some (js ''set the title to {value}'')\<rparr>"

abbreviation ex_block :: "unit Block" where
  "ex_block \<equiv> \<lparr>b_def = \<lparr>d_id = js ''blk_a'', d_name = js ''Spin'', d_params = [ex_speed, ex_title],
      d_hue = None\<rparr>, b_project = \<lparr>files = [], compositionId = js ''MyComp''\<rparr>\<rparr>"


section \<open>Facts about the array primitives\<close>

lemma findIndex_none: "findIndex P xs = -1 \<longleftrightarrow> (\<forall>x \<in> set xs. \<not> P x)"
proof (induction xs)
  case Nil
  show ?case by simp
next
  case (Cons x xs)
  have nonneg: "\<And>ys. findIndex P ys \<ge> -1"
  proof -
    fix ys show "findIndex P ys \<ge> -1"
      by (induction ys) (auto simp: Let_def)
  qed
  from Cons nonneg [of xs] show ?case
    by (auto simp: Let_def)
qed

lemma findIndex_lower: "findIndex P xs \<ge> -1"
  by (induction xs) (auto simp: Let_def)

lemma findIndex_found:
  assumes "findIndex P xs \<noteq> -1"
  shows "0 \<le> findIndex P xs \<and> findIndex P xs < int (length xs)
         \<and> P (xs ! nat (findIndex P xs))
         \<and> (\<forall>j < nat (findIndex P xs). \<not> P (xs ! j))"
  using assms
proof (induction xs)
  case Nil
  then show ?case by simp
next
  case (Cons x xs)
  show ?case
  proof (cases "P x")
    case True
    then show ?thesis by simp
  next
    case False
    with Cons.prems have ne: "findIndex P xs \<noteq> -1"
      by (auto simp: Let_def split: if_splits)
    from Cons.IH [OF ne] have ih: "0 \<le> findIndex P xs" "findIndex P xs < int (length xs)"
      "P (xs ! nat (findIndex P xs))" "\<forall>j < nat (findIndex P xs). \<not> P (xs ! j)"
      by auto
    have eq: "findIndex P (x # xs) = findIndex P xs + 1"
      using False ne by (simp add: Let_def)
    have n: "nat (findIndex P xs + 1) = Suc (nat (findIndex P xs))"
      using ih(1) by simp
    show ?thesis
      unfolding eq n using ih False
      by (auto simp: nth_Cons split: nat.splits)
  qed
qed

section \<open>Moving a segment\<close>

text \<open>
  C10. A move whose id matches no segment of the list returns the list as it is.
\<close>

theorem moveSegment_unknown_id:
  assumes "segId \<notin> seg_id ` set prev"
  shows "moveSegment segId index prev = prev"
proof -
  from assms have "\<forall>s \<in> set prev. \<not> (seg_id s = segId)" by auto
  then have "findIndex (\<lambda>s. seg_id s = segId) prev = -1"
    by (simp add: findIndex_none)
  then show ?thesis by (simp add: moveSegment_def)
qed

theorem moveSegment_unknown_id_witness:
  "js ''zz'' \<notin> seg_id ` set [TextSeg (js ''a'') (js ''hi''), BlockSeg (js ''b'') (js ''blk'') empty_object None None]
   \<and> moveSegment (js ''zz'') 1 [TextSeg (js ''a'') (js ''hi''), BlockSeg (js ''b'') (js ''blk'') empty_object None None]
      = [TextSeg (js ''a'') (js ''hi''), BlockSeg (js ''b'') (js ''blk'') (empty_object :: unit jsrecord) None None]"
proof -
  have h: "js ''zz'' \<notin> seg_id ` set [TextSeg (js ''a'') (js ''hi''),
             BlockSeg (js ''b'') (js ''blk'') (empty_object :: unit jsrecord) None None]"
    by (simp add: js_def)
  from moveSegment_unknown_id [OF h, of 1] h show ?thesis by simp
qed

lemma splice_delete1_at:
  assumes "0 \<le> i" "i < int (length xs)"
  shows "splice_delete1 xs i = ([xs ! nat i], take (nat i) xs @ drop (Suc (nat i)) xs)"
proof -
  have k: "relative_start (length xs) i = nat i"
    using assms by (simp add: relative_start_def)
  have "take 1 (drop (nat i) xs) = [xs ! nat i]"
    using assms by (cases "drop (nat i) xs") (auto simp: hd_drop_conv_nth dest: arg_cong [where f=hd])
  then show ?thesis
    by (simp add: splice_delete1_def k Let_def)
qed

lemma length_splice_insert: "length (splice_insert xs start x) = Suc (length xs)"
  by (simp add: splice_insert_def Let_def)

lemma splice_insert_nth:
  assumes "0 \<le> start" "start \<le> int (length xs)"
  shows "splice_insert xs start x ! nat start = x"
proof -
  have k: "relative_start (length xs) start = nat start"
    using assms by (simp add: relative_start_def)
  have "length (take (nat start) xs) = nat start" using assms by simp
  then have "(take (nat start) xs @ x # drop (nat start) xs) ! nat start = x"
    by (metis nth_append_length)
  then show ?thesis by (simp add: splice_insert_def k Let_def)
qed

text \<open>
  C6. When the list holds a segment with the given id, the segment at the first such
  position \<open>from\<close> is removed and spliced back at \<open>index - 1\<close> if \<open>from\<close> strictly
  precedes the target index, and at \<open>index\<close> otherwise. The list keeps its length, and
  for a target index within the list the segment is found at that position afterwards.
  The witness is the move of the element at position 3 to target index 1 in a list of
  five: it lands immediately before the element that was at index 1.
\<close>

theorem moveSegment_index_arithmetic:
  assumes "segId \<in> seg_id ` set prev"
  shows "\<exists>from < length prev.
           findIndex (\<lambda>s. seg_id s = segId) prev = int from
         \<and> seg_id (prev ! from) = segId
         \<and> (\<forall>j < from. seg_id (prev ! j) \<noteq> segId)
         \<and> moveSegment segId index prev =
             splice_insert (take from prev @ drop (Suc from) prev)
               (if int from < index then index - 1 else index) (prev ! from)
         \<and> length (moveSegment segId index prev) = length prev
         \<and> (0 \<le> index \<and> index \<le> int (length prev) \<longrightarrow>
               moveSegment segId index prev ! nat (if int from < index then index - 1 else index)
                 = prev ! from)"
proof -
  let ?P = "\<lambda>s. seg_id s = segId"
  let ?f = "findIndex ?P prev"
  from assms have ne: "?f \<noteq> -1"
    by (auto simp: findIndex_none)
  from findIndex_found [OF ne]
  have f: "0 \<le> ?f" "?f < int (length prev)" "?P (prev ! nat ?f)" "\<forall>j < nat ?f. \<not> ?P (prev ! j)"
    by auto
  let ?rest = "take (nat ?f) prev @ drop (Suc (nat ?f)) prev"
  let ?to = "if ?f < index then index - 1 else index"
  have del: "splice_delete1 prev ?f = ([prev ! nat ?f], ?rest)"
    using f by (simp add: splice_delete1_at)
  have to: "(if ?f < index then max 0 (index - 1) else index) = ?to"
    using f(1) by auto
  have mv: "moveSegment segId index prev = splice_insert ?rest ?to (prev ! nat ?f)"
    using ne by (simp add: moveSegment_def del to Let_def)
  have len_rest: "length ?rest = length prev - 1"
    using f by auto
  have len: "length (moveSegment segId index prev) = length prev"
    unfolding mv length_splice_insert len_rest using f by simp
  have pos: "moveSegment segId index prev ! nat ?to = prev ! nat ?f"
    if "0 \<le> index" "index \<le> int (length prev)"
  proof -
    have "0 \<le> ?to" "?to \<le> int (length ?rest)"
      using that f unfolding len_rest by auto
    from splice_insert_nth [OF this] show ?thesis
      unfolding mv .
  qed
  show ?thesis
    by (rule exI [where x = "nat ?f"]) (use f mv len pos in auto)
qed

theorem moveSegment_index_arithmetic_witness:
  "js ''d'' \<in> seg_id ` set [TextSeg (js ''a'') (js ''one''), BlockSeg (js ''b'') (js ''blk'') empty_object None None,
        TextSeg (js ''c'') (js ''two''), BlockSeg (js ''d'') (js ''blk'') empty_object None None, TextSeg (js ''e'') (js ''three'')]
   \<and> moveSegment (js ''d'') 1 [TextSeg (js ''a'') (js ''one''), BlockSeg (js ''b'') (js ''blk'') empty_object None None,
        TextSeg (js ''c'') (js ''two''), BlockSeg (js ''d'') (js ''blk'') empty_object None None, TextSeg (js ''e'') (js ''three'')]
     = [TextSeg (js ''a'') (js ''one''), BlockSeg (js ''d'') (js ''blk'') empty_object None None,
        BlockSeg (js ''b'') (js ''blk'') empty_object None None,
        TextSeg (js ''c'') (js ''two''), TextSeg (js ''e'') (js ''three'' :: jstring) :: unit PromptSeg]"
proof -
  let ?xs = "[TextSeg (js ''a'') (js ''one''), BlockSeg (js ''b'') (js ''blk'') empty_object None None,
        TextSeg (js ''c'') (js ''two''), BlockSeg (js ''d'') (js ''blk'') empty_object None None, TextSeg (js ''e'') (js ''three'') :: unit PromptSeg]"
  have h: "js ''d'' \<in> seg_id ` set ?xs"
    by (simp add: js_def)
  have fi: "findIndex (\<lambda>s. seg_id s = js ''d'') ?xs = 3"
    by (simp add: js_def)
  from moveSegment_index_arithmetic [OF h, of 1] obtain k where
    k: "findIndex (\<lambda>s. seg_id s = js ''d'') ?xs = int k"
    and mv: "moveSegment (js ''d'') 1 ?xs =
              splice_insert (take k ?xs @ drop (Suc k) ?xs) (if int k < 1 then 1 - 1 else 1) (?xs ! k)"
    by blast
  from k fi have k3: "k = 3" by simp
  have "moveSegment (js ''d'') 1 ?xs = splice_insert (take 3 ?xs @ drop 4 ?xs) 1 (?xs ! 3)"
    using mv unfolding k3 by simp
  then show ?thesis using h
    by (simp add: splice_insert_def relative_start_def)
qed

section \<open>Inserting and removing segments\<close>

text \<open>
  Removal restores the invariant whatever the list was: the merge leaves no two text
  segments side by side, and an empty result gets one empty text segment.
\<close>

lemma no_adjacent_text_snoc:
  "no_adjacent_text (xs @ [y]) \<longleftrightarrow>
     no_adjacent_text xs \<and> (xs = [] \<or> \<not> (is_text (last xs) \<and> is_text y))"
  by (induction xs rule: no_adjacent_text.induct) auto

lemma merge_step_no_adjacent:
  assumes "no_adjacent_text merged"
  shows "no_adjacent_text (merge_step merged s)"
proof (cases "merged \<noteq> [] \<and> is_text (last merged) \<and> is_text s")
  case False
  with assms show ?thesis
    by (auto simp: merge_step_def no_adjacent_text_snoc)
next
  case True
  then have m: "merged = butlast merged @ [last merged]" by simp
  from assms m have "no_adjacent_text (butlast merged @ [last merged])" by simp
  then have "no_adjacent_text (butlast merged) \<and>
      (butlast merged = [] \<or> \<not> (is_text (last (butlast merged)) \<and> is_text (last merged)))"
    by (simp only: no_adjacent_text_snoc)
  with True have "no_adjacent_text
      (butlast merged @ [TextSeg (seg_id (last merged)) (seg_value (last merged) @ seg_value s)])"
    by (simp add: no_adjacent_text_snoc)
  with True show ?thesis by (simp add: merge_step_def)
qed

lemma foldl_merge_no_adjacent:
  "no_adjacent_text acc \<Longrightarrow> no_adjacent_text (foldl merge_step acc xs)"
  by (induction xs arbitrary: acc) (simp_all add: merge_step_no_adjacent)

lemma removeSeg_invariant: "seg_invariant (removeSeg uid_new ident prev)"
proof -
  let ?merged = "foldl merge_step [] (filter (\<lambda>s. seg_id s \<noteq> ident) prev)"
  have "no_adjacent_text ?merged"
    by (rule foldl_merge_no_adjacent) simp
  then show ?thesis
    by (cases ?merged) (simp_all add: removeSeg_def seg_invariant_def Let_def)
qed

text \<open>
  The updater of the block-definition branch always returns: every element it reads is in
  range, so no \<open>TypeError\<close> is raised, and the list grows.
\<close>

lemma at_in_range: "0 \<le> i \<Longrightarrow> i < int (length xs) \<Longrightarrow> at xs i = Some (xs ! nat i)"
  by (simp add: at_def)

lemma insertBlock_never_raises:
  "\<exists>segs. insertBlock uid_block uid_before uid_after targetIndex blockId vals prev = Inr segs
          \<and> length prev < length segs"
proof -
  let ?insertAt = "max 0 (min targetIndex (int (length prev)))"
  let ?block = "BlockSeg uid_block blockId vals None None"
  let ?next1 = "splice_insert prev ?insertAt ?block"
  have ia: "0 \<le> ?insertAt" "?insertAt \<le> int (length prev)" by auto
  have l1: "length ?next1 = Suc (length prev)" by (rule length_splice_insert)
  have b1: "?next1 ! nat ?insertAt = ?block"
    by (rule splice_insert_nth [OF ia])
  define needBefore where
    "needBefore = (?insertAt = 0 \<or> \<not> is_text (?next1 ! nat (?insertAt - 1)))"
  have before: "(if ?insertAt = 0 then Inr True
               else (case at ?next1 (?insertAt - 1) of
                       None \<Rightarrow> Inl TypeError
                     | Some s \<Rightarrow> Inr (\<not> is_text s))) = Inr needBefore"
  proof (cases "?insertAt = 0")
    case True
    then show ?thesis by (simp only: needBefore_def if_True simp_thms)
  next
    case False
    with ia have "0 \<le> ?insertAt - 1" "?insertAt - 1 < int (length ?next1)"
      unfolding l1 by linarith+
    from at_in_range [OF this] False show ?thesis
      by (simp only: needBefore_def if_False option.case simp_thms)
  qed
  let ?next2 = "if needBefore then splice_insert ?next1 ?insertAt (TextSeg uid_before []) else ?next1"
  have l2: "length ?next2 = (if needBefore then Suc (Suc (length prev)) else Suc (length prev))"
    by (simp add: length_splice_insert l1)
  have ia1: "?insertAt \<le> int (length ?next1)" unfolding l1 using ia by linarith
  have at2: "at ?next2 ?insertAt = Some (?next2 ! nat ?insertAt)"
    by (rule at_in_range) (use ia l2 in \<open>auto split: if_splits\<close>)
  have blk2: "\<not> needBefore \<Longrightarrow> is_block (?next2 ! nat ?insertAt)"
    using b1 by simp
  have txt2: "needBefore \<Longrightarrow> at ?next2 (?insertAt + 1) = Some (?next2 ! nat (?insertAt + 1))"
    by (rule at_in_range) (use ia l2 in \<open>auto split: if_splits\<close>)
  obtain wanted where wanted:
    "(case at ?next2 ?insertAt of
        None \<Rightarrow> Inl TypeError
      | Some s \<Rightarrow>
          if is_block s then Inr (seg_id s)
          else (case at ?next2 (?insertAt + 1) of
                  None \<Rightarrow> Inl TypeError
                | Some s' \<Rightarrow> Inr (seg_id s'))) = Inr wanted"
  proof (cases needBefore)
    case True
    with txt2 at2 that show ?thesis
      by (cases "is_block (?next2 ! nat ?insertAt)") (simp_all only: option.case if_True if_False)
  next
    case False
    from blk2 [OF False] at2 that show ?thesis
      by (simp only: option.case if_True if_False)
  qed
  let ?blockPos = "findIndex (\<lambda>s. is_block s \<and> seg_id s = wanted) ?next2"
  let ?ensureAfter = "?blockPos + 1"
  have "- 1 \<le> ?blockPos" by (rule findIndex_lower)
  then have ea: "0 \<le> ?ensureAfter" by linarith
  obtain needAfter where after:
    "(if ?ensureAfter \<ge> int (length ?next2) then Inr True
      else (case at ?next2 ?ensureAfter of
              None \<Rightarrow> Inl TypeError
            | Some s \<Rightarrow> Inr (\<not> is_text s))) = Inr needAfter"
  proof (cases "?ensureAfter \<ge> int (length ?next2)")
    case True
    with that show ?thesis by (simp only: if_True)
  next
    case False
    then have "?ensureAfter < int (length ?next2)" by linarith
    from at_in_range [OF ea this] False that show ?thesis
      by (simp only: if_False option.case)
  qed
  let ?result = "if needAfter then splice_insert ?next2 (?ensureAfter + 1) (TextSeg uid_after []) else ?next2"
  have res: "insertBlock uid_block uid_before uid_after targetIndex blockId vals prev = Inr ?result"
    unfolding insertBlock_def Let_def before sum.case wanted after ..
  have "length prev < length ?result"
    using l2 by (simp add: length_splice_insert)
  with res show ?thesis by blast
qed

text \<open>
  C3. Insertion is meant to leave a text segment immediately before and immediately after
  the new block segment. Dropping a block definition on drop zone 1 of
  \<open>[Text, Block]\<close> puts the new block between the two, and the empty text segment that
  should follow it is spliced one position too far, behind the old block: the new block
  is followed by a block segment.
\<close>

theorem handleDrop_block_followed_by_block:
  "handleDrop no_host_objects (js ''n1'') (js ''n2'') (js ''n3'')
     [\<lparr>b_def = \<lparr>d_id = js ''blk_b'', d_name = js ''Spin'', d_params = [], d_hue = None\<rparr>,
       b_project = \<lparr>files = [], compositionId = js ''MyComp''\<rparr>\<rparr>]
     None 1 [] (js ''blk_b'')
     [TextSeg (js ''t1'') (js ''a''), BlockSeg (js ''b1'') (js ''blk_a'') empty_object None None]
   = Inr [TextSeg (js ''t1'') (js ''a''),
          BlockSeg (js ''n1'') (js ''blk_b'') (empty_object :: unit jsrecord) None None,
          BlockSeg (js ''b1'') (js ''blk_a'') empty_object None None,
          TextSeg (js ''n3'') []]"
  by (simp add: handleDrop_def block_defaults_def insertBlock_def splice_insert_def
      relative_start_def at_def js_def Let_def)

text \<open>
  C2. The segment list is meant to stay non-empty and free of adjacent text segments under
  insertions and removals. From the one-text list, inserting a block at index 0, removing
  the empty text segment before it and inserting a second block at index 0 gives a list
  that ends in two text segments side by side, so the invariant is lost.
\<close>

theorem insert_remove_insert_breaks_invariant:
  "seg_invariant [TextSeg (js ''t0'') (js ''hello'') :: unit PromptSeg]
   \<and> apply_ops
       [InsertBlockOp (js ''b1'') (js ''x1'') (js ''y1'') 0 (js ''blk_a'') empty_object,
        RemoveSegmentOp (js ''u1'') (js ''x1''),
        InsertBlockOp (js ''b2'') (js ''x2'') (js ''y2'') 0 (js ''blk_a'') empty_object]
       [TextSeg (js ''t0'') (js ''hello'')]
     = Inr [TextSeg (js ''x2'') [],
            BlockSeg (js ''b2'') (js ''blk_a'') (empty_object :: unit jsrecord) None None,
            BlockSeg (js ''b1'') (js ''blk_a'') empty_object None None,
            TextSeg (js ''y2'') [],
            TextSeg (js ''t0'') (js ''hello'')]
   \<and> \<not> seg_invariant
         [TextSeg (js ''x2'') [],
          BlockSeg (js ''b2'') (js ''blk_a'') (empty_object :: unit jsrecord) None None,
          BlockSeg (js ''b1'') (js ''blk_a'') empty_object None None,
          TextSeg (js ''y2'') [],
          TextSeg (js ''t0'') (js ''hello'')]"
  by (simp add: seg_invariant_def insertBlock_def removeSeg_def merge_step_def splice_insert_def
      relative_start_def at_def js_def Let_def)

section \<open>Context flattening skips unresolved references\<close>

lemma find_first_None_iff: "find_first P xs = None \<longleftrightarrow> (\<forall>x \<in> set xs. \<not> P x)"
  by (induction xs) auto

lemma find_first_SomeD: "find_first P xs = Some x \<Longrightarrow> P x \<and> x \<in> set xs"
  by (induction xs) (auto split: if_splits)

lemma resolves_iff:
  "i \<in> d_id ` b_def ` set blocks \<longleftrightarrow> find_first (\<lambda>b. d_id (b_def b) = i) blocks \<noteq> None"
proof
  assume "i \<in> d_id ` b_def ` set blocks"
  then obtain b where "b \<in> set blocks" "d_id (b_def b) = i" by auto
  then show "find_first (\<lambda>b. d_id (b_def b) = i) blocks \<noteq> None"
    by (auto simp: find_first_None_iff)
next
  assume "find_first (\<lambda>b. d_id (b_def b) = i) blocks \<noteq> None"
  then obtain b where "b \<in> set blocks" "d_id (b_def b) = i"
    by (auto simp: find_first_None_iff)
  then show "i \<in> d_id ` b_def ` set blocks" by force
qed

lemma u_id_usage_of: "u_id (usage_of host blk vals ctx) = d_id (b_def blk)"
  by (simp add: usage_of_def)

lemma segments_usages:
  "extractBlocksFromSegments host segs blocks =
     map (\<lambda>s. usage_of host (the (find_first (\<lambda>b. d_id (b_def b) = seg_blockId s) blocks))
                 (seg_values s)
                 (Some (case seg_contextUrl s of None \<Rightarrow> [] | Some u \<Rightarrow> u,
                        case seg_contextData s of None \<Rightarrow> [] | Some d \<Rightarrow> d)))
       (filter (\<lambda>s. is_block s \<and> seg_blockId s \<in> d_id ` b_def ` set blocks) segs)"
proof (induction segs)
  case Nil
  show ?case by simp
next
  case (Cons seg segs)
  show ?case
  proof (cases "is_block seg")
    case False
    with Cons show ?thesis by simp
  next
    case True
    show ?thesis
    proof (cases "find_first (\<lambda>b. d_id (b_def b) = seg_blockId seg) blocks")
      case None
      then have "seg_blockId seg \<notin> d_id ` b_def ` set blocks"
        by (simp add: resolves_iff)
      with True None Cons show ?thesis by simp
    next
      case (Some blk)
      then have "seg_blockId seg \<in> d_id ` b_def ` set blocks"
        by (simp add: resolves_iff)
      with True Some Cons show ?thesis by simp
    qed
  qed
qed

lemma segments_usage_ids:
  "map u_id (extractBlocksFromSegments host segs blocks) =
     filter (\<lambda>i. i \<in> d_id ` b_def ` set blocks) (map seg_blockId (filter is_block segs))"
proof (induction segs)
  case Nil
  show ?case by simp
next
  case (Cons seg segs)
  show ?case
  proof (cases "is_block seg")
    case False
    with Cons show ?thesis by simp
  next
    case True
    show ?thesis
    proof (cases "find_first (\<lambda>b. d_id (b_def b) = seg_blockId seg) blocks")
      case None
      then have "seg_blockId seg \<notin> d_id ` b_def ` set blocks"
        by (auto simp: find_first_None_iff)
      with True None Cons show ?thesis by simp
    next
      case (Some blk)
      from find_first_SomeD [OF Some] have "d_id (b_def blk) = seg_blockId seg" "blk \<in> set blocks"
        by auto
      then have "seg_blockId seg \<in> d_id ` b_def ` set blocks"
        by force
      with True Some Cons \<open>d_id (b_def blk) = seg_blockId seg\<close> show ?thesis
        by (simp add: u_id_usage_of)
    qed
  qed
qed

lemma matches_usages:
  "usages_of_matches host parse ms blocks =
     map (\<lambda>m. usage_of host (the (find_first (\<lambda>b. d_id (b_def b) = m_id m) blocks))
                 (parse_params host parse (m_rest m)) None)
       (filter (\<lambda>m. m_id m \<in> d_id ` b_def ` set blocks) ms)"
proof (induction ms)
  case Nil
  show ?case by simp
next
  case (Cons m ms)
  show ?case
  proof (cases "find_first (\<lambda>b. d_id (b_def b) = m_id m) blocks")
    case None
    then have "m_id m \<notin> d_id ` b_def ` set blocks"
      by (simp add: resolves_iff)
    with None Cons show ?thesis by simp
  next
    case (Some blk)
    then have "m_id m \<in> d_id ` b_def ` set blocks"
      by (simp add: resolves_iff)
    with Some Cons show ?thesis by simp
  qed
qed

lemma matches_usage_ids:
  "map u_id (usages_of_matches host parse ms blocks) =
     filter (\<lambda>i. i \<in> d_id ` b_def ` set blocks) (map m_id ms)"
proof (induction ms)
  case Nil
  show ?case by simp
next
  case (Cons m ms)
  show ?case
  proof (cases "find_first (\<lambda>b. d_id (b_def b) = m_id m) blocks")
    case None
    then have "m_id m \<notin> d_id ` b_def ` set blocks"
      by (auto simp: find_first_None_iff)
    with None Cons show ?thesis by simp
  next
    case (Some blk)
    from find_first_SomeD [OF Some] have e: "d_id (b_def blk) = m_id m" and "blk \<in> set blocks"
      by auto
    then have "m_id m \<in> d_id ` b_def ` set blocks"
      by force
    with Some Cons e show ?thesis
      by (simp add: u_id_usage_of)
  qed
qed

text \<open>
  C7. Flattening passes over every block segment and every token whose block id is not in
  the lookup and keeps the others in input order: the usage list is, element by element,
  the list of the resolvable block segments (of the resolvable tokens), each turned into
  the usage of its own block definition with its own values and context. So an
  unresolvable reference contributes no entry, every resolvable one contributes exactly
  one, and the order and the multiplicity of the input are kept; in particular the ids of
  the usages are the resolvable block ids of the input in input order. Both functions are
  total: there is no error to raise.
\<close>

theorem flattening_skips_unresolved:
  "extractBlocksFromSegments host segs blocks =
     map (\<lambda>s. usage_of host (the (find_first (\<lambda>b. d_id (b_def b) = seg_blockId s) blocks))
                 (seg_values s)
                 (Some (case seg_contextUrl s of None \<Rightarrow> [] | Some u \<Rightarrow> u,
                        case seg_contextData s of None \<Rightarrow> [] | Some d \<Rightarrow> d)))
       (filter (\<lambda>s. is_block s \<and> seg_blockId s \<in> d_id ` b_def ` set blocks) segs)
   \<and> map u_id (extractBlocksFromSegments host segs blocks) =
     filter (\<lambda>i. i \<in> d_id ` b_def ` set blocks) (map seg_blockId (filter is_block segs))
   \<and> extractBlocksFromPrompt host JSON_parse text blocks =
     map (\<lambda>m. usage_of host (the (find_first (\<lambda>b. d_id (b_def b) = m_id m) blocks))
                 (parse_params host JSON_parse (m_rest m)) None)
       (filter (\<lambda>m. m_id m \<in> d_id ` b_def ` set blocks) (regex_matches text))
   \<and> map u_id (extractBlocksFromPrompt host JSON_parse text blocks) =
     filter (\<lambda>i. i \<in> d_id ` b_def ` set blocks) (map m_id (regex_matches text))"
  unfolding extractBlocksFromPrompt_def
  by (intro conjI segments_usages segments_usage_ids matches_usages matches_usage_ids)

theorem flattening_skips_unresolved_witness:
  "extractBlocksFromSegments no_host_objects
       [TextSeg (js ''s0'') (js ''intro''),
        BlockSeg (js ''s1'') (js ''gone'') empty_object None None,
        BlockSeg (js ''s2'') (js ''blk_a'')
          \<lparr>r_own = [js ''speed'' \<mapsto> JNum 2], r_proto = Some ObjectPrototype\<rparr> None None,
        TextSeg (js ''s3'') (js ''then''),
        BlockSeg (js ''s4'') (js ''blk_a'')
          \<lparr>r_own = [js ''speed'' \<mapsto> JNum 5], r_proto = Some ObjectPrototype\<rparr> (Some (js ''u'')) None]
       [ex_block]
     = [usage_of no_host_objects ex_block
          \<lparr>r_own = [js ''speed'' \<mapsto> JNum 2], r_proto = Some ObjectPrototype\<rparr> (Some ([], [])),
        usage_of no_host_objects ex_block
          \<lparr>r_own = [js ''speed'' \<mapsto> JNum 5], r_proto = Some ObjectPrototype\<rparr> (Some (js ''u'', []))]
   \<and> map (\<lambda>u. map up_value (u_params u))
       (extractBlocksFromPrompt no_host_objects scalar_parse
          (js ''a [[Block:gone x=1]] b [[Block:blk_a speed=3]] c [[Block:blk_a speed=4]]'') [ex_block])
     = [[JNum 3, JUndefined], [JNum 4, JUndefined]]"
proof -
  let ?v2 = "\<lparr>r_own = [js ''speed'' \<mapsto> JNum 2], r_proto = Some ObjectPrototype\<rparr> :: unit jsrecord"
  let ?v5 = "\<lparr>r_own = [js ''speed'' \<mapsto> JNum 5], r_proto = Some ObjectPrototype\<rparr> :: unit jsrecord"
  let ?segs = "[TextSeg (js ''s0'') (js ''intro''),
        BlockSeg (js ''s1'') (js ''gone'') empty_object None None,
        BlockSeg (js ''s2'') (js ''blk_a'') ?v2 None None,
        TextSeg (js ''s3'') (js ''then''),
        BlockSeg (js ''s4'') (js ''blk_a'') ?v5 (Some (js ''u'')) None]"
  let ?text = "js ''a [[Block:gone x=1]] b [[Block:blk_a speed=3]] c [[Block:blk_a speed=4]]''"
  have ids: "js ''blk_a'' \<in> d_id ` b_def ` set [ex_block]" "js ''gone'' \<notin> d_id ` b_def ` set [ex_block]"
    by (simp_all add: js_def)
  note t = flattening_skips_unresolved [of no_host_objects ?segs "[ex_block]" scalar_parse ?text]
  from t have "extractBlocksFromSegments no_host_objects ?segs [ex_block] =
     map (\<lambda>s. usage_of no_host_objects
                 (the (find_first (\<lambda>b. d_id (b_def b) = seg_blockId s) [ex_block])) (seg_values s)
                 (Some (case seg_contextUrl s of None \<Rightarrow> [] | Some u \<Rightarrow> u,
                        case seg_contextData s of None \<Rightarrow> [] | Some d \<Rightarrow> d)))
       (filter (\<lambda>s. is_block s \<and> seg_blockId s \<in> d_id ` b_def ` set [ex_block]) ?segs)"
    by (rule conjunct1)
  also have "\<dots> = [usage_of no_host_objects ex_block ?v2 (Some ([], [])),
                    usage_of no_host_objects ex_block ?v5 (Some (js ''u'', []))]"
    using ids by simp
  finally have a: "extractBlocksFromSegments no_host_objects ?segs [ex_block]
      = [usage_of no_host_objects ex_block ?v2 (Some ([], [])),
         usage_of no_host_objects ex_block ?v5 (Some (js ''u'', []))]" .
  have m: "regex_matches ?text =
      [\<lparr>m_index = 2, m_all = js ''[[Block:gone x=1]]'', m_id = js ''gone'', m_rest = js '' x=1''\<rparr>,
       \<lparr>m_index = 23, m_all = js ''[[Block:blk_a speed=3]]'', m_id = js ''blk_a'',
         m_rest = js '' speed=3''\<rparr>,
       \<lparr>m_index = 49, m_all = js ''[[Block:blk_a speed=4]]'', m_id = js ''blk_a'',
         m_rest = js '' speed=4''\<rparr>]"
    by code_simp
  have p3: "map up_value (u_params (usage_of no_host_objects ex_block
              (parse_params no_host_objects scalar_parse (js '' speed=3'')) None)) = [JNum 3, JUndefined]"
    by code_simp
  have p4: "map up_value (u_params (usage_of no_host_objects ex_block
              (parse_params no_host_objects scalar_parse (js '' speed=4'')) None)) = [JNum 4, JUndefined]"
    by code_simp
  from t have "extractBlocksFromPrompt no_host_objects scalar_parse ?text [ex_block] =
     map (\<lambda>m. usage_of no_host_objects (the (find_first (\<lambda>b. d_id (b_def b) = m_id m) [ex_block]))
                 (parse_params no_host_objects scalar_parse (m_rest m)) None)
       (filter (\<lambda>m. m_id m \<in> d_id ` b_def ` set [ex_block]) (regex_matches ?text))"
    by blast
  then have "map (\<lambda>u. map up_value (u_params u))
       (extractBlocksFromPrompt no_host_objects scalar_parse ?text [ex_block])
     = [[JNum 3, JUndefined], [JNum 4, JUndefined]]"
    unfolding m using ids p3 p4 by simp
  with a show ?thesis by (rule conjI)
qed

section \<open>Explain sentences\<close>

text \<open>
  C8. The sentence of a parameter is meant to be its template with the placeholder replaced
  by the JSON rendering of the effective value. For the number 2 it is; for the text
  \<open>Save $$ now\<close>, whose JSON rendering keeps both dollar signs, the rendered sentence
  has one dollar sign only, because the replacement text is subject to the \<open>$\<close>
  patterns of \<open>replace\<close>.
\<close>

theorem explain_dollar_pattern_expanded:
  \<open>scalar_stringify (JStr (js ''Save $$ now'')) = Some (js ''"Save $$ now"'')
   \<and> map (explains scalar_stringify)
       (extractBlocksFromSegments no_host_objects
          [BlockSeg (js ''s1'') (js ''blk_a'')
             \<lparr>r_own = [js ''speed'' \<mapsto> JNum 2, js ''title'' \<mapsto> JStr (js ''Save $$ now'')],
               r_proto = Some ObjectPrototype\<rparr> None None]
          [ex_block])
     = [js ''set the animation speed to 2'' @ [0xA] @ js ''set the title to "Save $ now"'']\<close>
  by code_simp

section \<open>Decoding the parameters of a token\<close>













text \<open>
  C5, as stated, fails in two ways. In \<open>[[Block:blk_a speed=fast speed=2]]\<close> the literal
  \<open>fast\<close> is not JSON, yet the parameter \<open>speed\<close> of the returned token is the number
  2 of the later piece, not the raw text. In \<open>[[Block:blk_a __proto__=fast]]\<close> the
  assignment of the raw text goes to the setter of \<open>Object.prototype\<close>, which ignores a
  string: the returned parameters have no property at all.
\<close>

theorem failed_literal_overwritten_or_unassigned:
  "scalar_parse (js ''fast'') = None
   \<and> findTokenAt no_host_objects scalar_parse (js ''[[Block:blk_a speed=fast speed=2]]'') 0 \<noteq> None
   \<and> r_own (t_params (the (findTokenAt no_host_objects scalar_parse
                              (js ''[[Block:blk_a speed=fast speed=2]]'') 0))) (js ''speed'')
       = Some (JNum 2)
   \<and> findTokenAt no_host_objects scalar_parse (js ''[[Block:blk_a __proto__=fast]]'') 0 \<noteq> None
   \<and> r_own (t_params (the (findTokenAt no_host_objects scalar_parse
                              (js ''[[Block:blk_a __proto__=fast]]'') 0))) (js ''__proto__'')
       = None
   \<and> record_get no_host_objects
       (t_params (the (findTokenAt no_host_objects scalar_parse
                         (js ''[[Block:blk_a __proto__=fast]]'') 0))) (js ''__proto__'')
       = JObject ObjectPrototype"
  by code_simp


section \<open>Round trip of a token\<close>

subsection \<open>Splitting a space-joined list of pieces\<close>










subsection \<open>The regular expression on a serialized token\<close>

lemma length_js [simp]: "length (js s) = length s"
  by (simp add: js_def)





subsection \<open>Assigning a list of distinct keys\<close>








text \<open>
  A declared key that the value object lacks but \<open>Object.prototype\<close> holds is read as the
  inherited function, which is not \<open>null\<close> or \<open>undefined\<close> and has no JSON rendering:
  the token carries the text \<open>undefined\<close>, which comes back as a string, not as the
  default. A declared key \<open>__proto__\<close> is read as the prototype and written back
  through the setter, so that the parsed object has no such property.
\<close>

lemma inherited_member_not_restored:
  \<open>serialize_token no_host_objects scalar_stringify
       \<lparr>b_def = \<lparr>d_id = js ''blk_c'', d_name = js ''C'',
                  d_params = [\<lparr>p_key = js ''constructor'', p_label = js ''constructor'',
                                p_type = PNumber, p_default = JNum 1, p_explain = None\<rparr>],
                  d_hue = None\<rparr>,
         b_project = \<lparr>files = [], compositionId = js ''MyComp''\<rparr>\<rparr>
       empty_object
     = js ''[[Block:blk_c constructor=undefined]]''
   \<and> r_own (t_params (the (findTokenByIndex no_host_objects scalar_parse
                (js ''[[Block:blk_c constructor=undefined]]'') 0))) (js ''constructor'')
     = Some (JStr (js ''undefined''))
   \<and> serialize_token no_host_objects scalar_stringify
       \<lparr>b_def = \<lparr>d_id = js ''blk_p'', d_name = js ''P'',
                  d_params = [\<lparr>p_key = js ''__proto__'', p_label = js ''proto'',
                                p_type = PNumber, p_default = JNum 1, p_explain = None\<rparr>],
                  d_hue = None\<rparr>,
         b_project = \<lparr>files = [], compositionId = js ''MyComp''\<rparr>\<rparr>
       empty_object
     = js ''[[Block:blk_p __proto__={}]]''\<close>
  by code_simp


section \<open>Round trip of the attribute encoding\<close>

subsection \<open>Code units and natural numbers\<close>

lemma unat_of_nat16: "n < 65536 \<Longrightarrow> unat (of_nat n :: jschar) = n"
  by (simp add: unat_of_nat)

lemma of_nat_unat16: "(of_nat (unat c) :: jschar) = c"
  by simp

lemma unat_lt16: "unat (c :: jschar) < 65536"
  using unsigned_less [of c, where 'a = nat] by simp

lemma word16_eq_iff: "(a :: jschar) = b \<longleftrightarrow> unat a = unat b"
  by (simp add: word_unat_eq_iff)

subsection \<open>Hexadecimal digits\<close>

lemma hex_digit_upper_unat:
  assumes "d < 16"
  shows "unat (hex_digit_upper d) = (if d < 10 then 0x30 + d else 0x41 + (d - 10))"
proof (cases "d < 10")
  case True
  have "unat (of_nat (0x30 + d) :: jschar) = 0x30 + d"
    by (rule unat_of_nat16) (use assms in simp)
  with True show ?thesis by (simp only: hex_digit_upper_def if_True)
next
  case False
  have "unat (of_nat (0x41 + (d - 10)) :: jschar) = 0x41 + (d - 10)"
    by (rule unat_of_nat16) (use assms in simp)
  with False show ?thesis by (simp only: hex_digit_upper_def if_False)
qed

lemma hex_value_upper: "d < 16 \<Longrightarrow> hex_value (hex_digit_upper d) = Some d"
  by (auto simp: hex_value_def word_le_nat_alt hex_digit_upper_unat)

lemma hex_digit_upper_not_u: "d < 16 \<Longrightarrow> hex_digit_upper d \<noteq> 0x75"
  by (auto simp: word16_eq_iff hex_digit_upper_unat)

lemma hex_octet_percent: "b < 256 \<Longrightarrow> hex_octet (hex_digit_upper (b div 16)) (hex_digit_upper (b mod 16)) = Some b"
proof -
  assume "b < 256"
  then have "b div 16 < 16" "b mod 16 < 16" by auto
  then show ?thesis
    by (simp add: hex_octet_def hex_value_upper)
qed

subsection \<open>Unescaping what \<open>encodeURIComponent\<close> produces\<close>

lemma unescape_step_percent:
  assumes "b < 256"
  shows "unescape_step (hex_digit_upper (b div 16) # hex_digit_upper (b mod 16) # r) = Some (of_nat b, r)"
proof -
  from assms have d: "b div 16 < 16" by auto
  have oct: "unescape_octet (hex_digit_upper (b div 16) # hex_digit_upper (b mod 16) # r) = Some (of_nat b, r)"
    by (simp add: unescape_octet_def hex_octet_percent [OF assms])
  show ?thesis
    unfolding unescape_step_def oct
    using hex_digit_upper_not_u [OF d]
    by (auto split: list.splits option.splits bool.splits)
qed

lemma unescape_percent_octet:
  "b < 256 \<Longrightarrow> unescape (percent_octet b @ r) = of_nat b # unescape r"
  by (simp add: percent_octet_def unescape_step_percent)

lemma unescape_percent_octets:
  "\<forall>b \<in> set bs. b < 256 \<Longrightarrow> unescape (concat (map percent_octet bs) @ r) = map of_nat bs @ unescape r"
  by (induction bs) (simp_all add: unescape_percent_octet)

lemma utf8_encode_octets: "cp < 0x200000 \<Longrightarrow> \<forall>b \<in> set (utf8_encode cp). b < 256"
  by (auto simp: utf8_encode_def)

lemmas word_nat = word_le_nat_alt word_less_nat_alt word16_eq_iff

lemma uri_unescaped_ascii:
  assumes "is_uri_unescaped c"
  shows "unat c < 0x80" "c \<noteq> 0x25" "\<not> is_high_surrogate c" "\<not> is_low_surrogate c"
  using assms
  by (auto simp: is_uri_unescaped_def is_alnum_def js_def is_high_surrogate_def
      is_low_surrogate_def word_le_nat_alt)

lemma surrogate_pair_cp_range:
  assumes "is_high_surrogate c" "is_low_surrogate d"
  shows "0x10000 \<le> surrogate_pair_cp c d" "surrogate_pair_cp c d < 0x110000"
  using assms
  by (auto simp: surrogate_pair_cp_def is_high_surrogate_def is_low_surrogate_def word_le_nat_alt)

lemma unescape_literal: "c \<noteq> 0x25 \<Longrightarrow> unescape (c # r) = c # unescape r"
  by simp

lemma encodeURIComponent_utf8:
  assumes "well_formed_utf16 s"
  shows "\<exists>u. encodeURIComponent s = Inr u \<and> (\<forall>r. unescape (u @ r) = map of_nat (utf8_of s) @ unescape r)"
  using assms
proof (induction s rule: well_formed_utf16.induct)
  case 1
  show ?case by simp
next
  case (2 c cs)
  show ?case
  proof (cases "is_high_surrogate c")
    case True
    with "2.prems" obtain d ds where cs: "cs = d # ds" and low: "is_low_surrogate d" and wf: "well_formed_utf16 ds"
      by (cases cs) auto
    from "2.IH"(1) [OF True cs wf] obtain u where
      u: "encodeURIComponent ds = Inr u" "\<forall>r. unescape (u @ r) = map of_nat (utf8_of ds) @ unescape r"
      by blast
    have nu: "\<not> is_uri_unescaped c" using True uri_unescaped_ascii(3) by blast
    have nl: "\<not> is_low_surrogate c"
      using True by (auto simp: is_high_surrogate_def is_low_surrogate_def word_le_nat_alt)
    let ?o = "utf8_encode (surrogate_pair_cp c d)"
    have oct: "\<forall>b \<in> set ?o. b < 256"
      using surrogate_pair_cp_range(2) [OF True low] by (intro utf8_encode_octets) simp
    have enc: "encodeURIComponent (c # cs) = Inr (concat (map percent_octet ?o) @ u)"
      using nu nl True low cs u(1) by simp
    have "unescape ((concat (map percent_octet ?o) @ u) @ r) = map of_nat (utf8_of (c # cs)) @ unescape r" for r
      using unescape_percent_octets [OF oct, of "u @ r"] u(2) True cs by simp
    with enc show ?thesis by blast
  next
    case False
    with "2.prems" have nl: "\<not> is_low_surrogate c" and wf: "well_formed_utf16 cs" by auto
    from "2.IH"(2) [OF False wf] obtain u where
      u: "encodeURIComponent cs = Inr u" "\<forall>r. unescape (u @ r) = map of_nat (utf8_of cs) @ unescape r"
      by blast
    show ?thesis
    proof (cases "is_uri_unescaped c")
      case True
      from uri_unescaped_ascii [OF True] have a: "unat c < 0x80" "c \<noteq> 0x25" by auto
      have enc: "encodeURIComponent (c # cs) = Inr (c # u)"
        using True u(1) by simp
      have "utf8_encode (unat c) = [unat c]" using a(1) by (simp add: utf8_encode_def)
      then have "unescape ((c # u) @ r) = map of_nat (utf8_of (c # cs)) @ unescape r" for r
        using a(2) u(2) False by simp
      with enc show ?thesis by blast
    next
      case nu: False
      let ?o = "utf8_encode (unat c)"
      have "unat c < 0x200000" using unat_lt16 [of c] by simp
      then have oct: "\<forall>b \<in> set ?o. b < 256" by (rule utf8_encode_octets)
      have enc: "encodeURIComponent (c # cs) = Inr (concat (map percent_octet ?o) @ u)"
        using nu nl False u(1) by simp
      have "unescape ((concat (map percent_octet ?o) @ u) @ r) = map of_nat (utf8_of (c # cs)) @ unescape r" for r
        using unescape_percent_octets [OF oct, of "u @ r"] u(2) False by simp
      with enc show ?thesis by blast
    qed
  qed
qed

lemma utf8_of_octets: "\<forall>b \<in> set (utf8_of s). b < 256"
proof (induction s rule: utf8_of.induct)
  case 1
  show ?case by simp
next
  case (2 c cs)
  have single: "\<forall>b \<in> set (utf8_encode (unat c)). b < 256"
    using unat_lt16 [of c] by (intro utf8_encode_octets) simp
  show ?case
  proof (cases "is_high_surrogate c")
    case False
    with 2 single show ?thesis by auto
  next
    case True
    show ?thesis
    proof (cases cs)
      case Nil
      with True single show ?thesis by simp
    next
      case (Cons d ds)
      have "unat c - 0xD800 \<le> 1023"
        using True by (auto simp: is_high_surrogate_def word_le_nat_alt)
      then have "(unat c - 0xD800) * 0x400 \<le> 1023 * 0x400"
        by (rule mult_le_mono1)
      then have "surrogate_pair_cp c d < 0x200000"
        using unat_lt16 [of d] by (simp add: surrogate_pair_cp_def)
      then have "\<forall>b \<in> set (utf8_encode (surrogate_pair_cp c d)). b < 256"
        by (rule utf8_encode_octets)
      with "2.IH"(1) [OF True Cons] True Cons show ?thesis by auto
    qed
  qed
qed

subsection \<open>Base64\<close>

lemma base64_encode_split:
  "base64_encode bs = map base64_char (base64_sextets bs) @ base64_padding bs"
  by (induction bs rule: base64_encode.induct) simp_all

lemma divmod_pack:
  fixes x y m :: nat
  assumes "y < m"
  shows "(x * m + y) div m = x" "(x * m + y) mod m = y"
  using assms by simp_all

lemma base64_sextets_range:
  "\<forall>b \<in> set bs. b < 256 \<Longrightarrow> \<forall>x \<in> set (base64_sextets bs). x < 64"
proof (induction bs rule: base64_sextets.induct)
  case 1
  show ?case by simp
next
  case (2 a)
  then have "a < 256" by simp
  then have "a div 4 < 64" "(a mod 4) * 16 < 64" by auto
  then show ?case by simp
next
  case (3 a b)
  then have "a < 256" "b < 256" by simp_all
  then have "a div 4 < 64" "(a mod 4) * 16 + b div 16 < 64" "(b mod 16) * 4 < 64"
    by auto
  then show ?case by simp
next
  case (4 a b c r)
  then have "a < 256" "b < 256" "c < 256" and r: "\<forall>b \<in> set r. b < 256" by simp_all
  then have "a div 4 < 64" "(a mod 4) * 16 + b div 16 < 64" "(b mod 16) * 4 + c div 64 < 64" "c mod 64 < 64"
    by auto
  with "4.IH" [OF r] show ?case by simp
qed

lemma base64_decode_sextets:
  "\<forall>b \<in> set bs. b < 256 \<Longrightarrow> base64_decode (base64_sextets bs) = bs"
proof (induction bs rule: base64_sextets.induct)
  case 1
  show ?case by simp
next
  case (2 a)
  have "a div 4 * 4 + a mod 4 * 16 div 16 = a" by simp
  then show ?case by simp
next
  case (3 a b)
  then have "b < 256" by simp
  then have b: "b div 16 < 16" by auto
  have s2: "(a mod 4 * 16 + b div 16) div 16 = a mod 4" "(a mod 4 * 16 + b div 16) mod 16 = b div 16"
    using divmod_pack [OF b, of "a mod 4"] by simp_all
  have s3: "b mod 16 * 4 div 4 = b mod 16" by simp
  have "a div 4 * 4 + a mod 4 = a" "b div 16 * 16 + b mod 16 = b" by simp_all
  then show ?case using b by (simp add: s2 s3)
next
  case (4 a b c r)
  then have "b < 256" "c < 256" and r: "\<forall>b \<in> set r. b < 256" by simp_all
  then have b: "b div 16 < 16" and c: "c div 64 < 4" by auto
  have s2: "(a mod 4 * 16 + b div 16) div 16 = a mod 4" "(a mod 4 * 16 + b div 16) mod 16 = b div 16"
    using divmod_pack [OF b, of "a mod 4"] by simp_all
  have s3: "(b mod 16 * 4 + c div 64) div 4 = b mod 16" "(b mod 16 * 4 + c div 64) mod 4 = c div 64"
    using divmod_pack [OF c, of "b mod 16"] by simp_all
  have "a div 4 * 4 + a mod 4 = a" "b div 16 * 16 + b mod 16 = b" "c div 64 * 64 + c mod 64 = c"
    by simp_all
  with "4.IH" [OF r] show ?case using b c by (simp add: s2 s3)
qed

lemma base64_lengths:
  "(length (base64_sextets bs) + length (base64_padding bs)) mod 4 = 0"
  "length (base64_sextets bs) mod 4 \<noteq> 1"
  by (induction bs rule: base64_sextets.induct) simp_all

lemma base64_padding_cases:
  "base64_padding bs = [] \<or> base64_padding bs = [0x3D] \<or> base64_padding bs = [0x3D, 0x3D]"
  by (induction bs rule: base64_padding.induct) simp_all

lemma base64_char_unat:
  assumes "n < 64"
  shows "unat (base64_char n) =
           (if n < 26 then 0x41 + n else if n < 52 then 0x61 + (n - 26)
            else if n < 62 then 0x30 + (n - 52) else if n = 62 then 0x2B else 0x2F)"
proof -
  have a: "unat (of_nat (0x41 + n) :: jschar) = 0x41 + n"
    by (rule unat_of_nat16) (use assms in simp)
  have b: "unat (of_nat (0x61 + (n - 26)) :: jschar) = 0x61 + (n - 26)"
    by (rule unat_of_nat16) (use assms in simp)
  have c: "unat (of_nat (0x30 + (n - 52)) :: jschar) = 0x30 + (n - 52)"
    by (rule unat_of_nat16) (use assms in simp)
  show ?thesis
    unfolding base64_char_def using a b c by (simp only: if_distrib [of unat] unat_numeral) simp
qed

lemma base64_char_props:
  assumes "n < 64"
  shows "base64_value (base64_char n) = Some n" "base64_char n \<noteq> 0x3D"
    "\<not> is_ascii_whitespace (base64_char n)"
  using assms base64_char_unat [OF assms]
  by (auto simp: base64_value_def is_ascii_whitespace_def word_le_nat_alt word16_eq_iff
      split: if_splits)

lemma strip_padding_body:
  assumes body: "0x3D \<notin> set body"
    and pad: "pad = [] \<or> pad = [0x3D] \<or> pad = [0x3D, 0x3D]"
    and len: "(length body + length pad) mod 4 = 0"
  shows "strip_padding (body @ pad) = body"
proof -
  have no_tail: "drop k body \<noteq> 0x3D # t" for k t
  proof
    assume "drop k body = 0x3D # t"
    then have "0x3D \<in> set (drop k body)" by simp
    then have "0x3D \<in> set body" by (rule in_set_dropD)
    with body show False by simp
  qed
  from pad consider "pad = []" | "pad = [0x3D]" | "pad = [0x3D, 0x3D]" by blast
  then show ?thesis
  proof cases
    case 1
    with len no_tail show ?thesis
      by (simp add: strip_padding_def)
  next
    case 2
    have "drop (length body - Suc 0) body @ [0x3D] \<noteq> [0x3D, 0x3D]"
    proof
      assume "drop (length body - Suc 0) body @ [0x3D] = [0x3D, 0x3D]"
      then have "drop (length body - Suc 0) body = [0x3D]" by (simp add: append_eq_Cons_conv)
      with no_tail show False by blast
    qed
    with 2 len show ?thesis
      by (simp add: strip_padding_def)
  next
    case 3
    with len show ?thesis
      by (simp add: strip_padding_def)
  qed
qed

lemma atob_base64_encode:
  assumes "\<forall>b \<in> set bs. b < 256"
  shows "atob (base64_encode bs) = Inr (map of_nat bs)"
proof -
  let ?sx = "base64_sextets bs"
  let ?body = "map base64_char ?sx"
  let ?pad = "base64_padding bs"
  from base64_sextets_range [OF assms] have range: "\<forall>x \<in> set ?sx. x < 64" .
  have body_ok: "\<forall>c \<in> set ?body. \<not> is_ascii_whitespace c \<and> c \<noteq> 0x3D \<and> base64_value c \<noteq> None"
    using range base64_char_props by auto
  have pad_ws: "\<forall>c \<in> set ?pad. \<not> is_ascii_whitespace c"
    using base64_padding_cases [of bs] by (auto simp: is_ascii_whitespace_def)
  have filt: "filter (\<lambda>c. \<not> is_ascii_whitespace c) (base64_encode bs) = ?body @ ?pad"
    unfolding base64_encode_split using body_ok pad_ws by (simp add: filter_id_conv)
  have body_eq: "0x3D \<notin> set ?body" using body_ok by blast
  have strip: "strip_padding (?body @ ?pad) = ?body"
    using base64_lengths(1) [of bs]
    by (intro strip_padding_body [OF body_eq base64_padding_cases]) simp
  have len1: "length ?body mod 4 \<noteq> 1"
    using base64_lengths(2) [of bs] by simp
  have vals: "map (\<lambda>c. the (base64_value c)) ?body = ?sx"
    using range by (simp add: map_idI base64_char_props(1))
  have valid: "\<not> (\<exists>c \<in> set ?body. base64_value c = None)"
    using body_ok by blast
  show ?thesis
    unfolding atob_def filt strip Let_def
    using len1 valid by (simp only: vals base64_decode_sextets [OF assms] if_False)
qed

lemma btoa_octets:
  assumes "\<forall>b \<in> set bs. b < 256"
  shows "btoa (map of_nat bs) = Inr (base64_encode bs)"
proof -
  have u: "map unat (map of_nat bs :: jstring) = bs"
    using assms by (induction bs) (simp_all add: unat_of_nat16)
  have "\<not> (\<exists>c \<in> set (map of_nat bs :: jstring). c > 0xFF)"
    using assms by (auto simp: word_less_nat_alt unat_of_nat16)
  then show ?thesis
    unfolding btoa_def using u by simp
qed

lemma encodeAttr_well_formed:
  assumes "well_formed_utf16 s"
  shows "encodeAttr s = Inr (base64_encode (utf8_of s))"
proof -
  from encodeURIComponent_utf8 [OF assms] obtain u where
    u: "encodeURIComponent s = Inr u" "\<forall>r. unescape (u @ r) = map of_nat (utf8_of s) @ unescape r"
    by blast
  from u(2) have "unescape (u @ []) = map of_nat (utf8_of s) @ unescape []" by blast
  then have "unescape u = map of_nat (utf8_of s)" by simp
  with u(1) btoa_octets [OF utf8_of_octets, of s] show ?thesis
    by (simp add: encodeAttr_def)
qed

subsection \<open>Decoding escaped UTF-8 octets\<close>

lemma percent_octet_shape: "percent_octet b = [0x25, hex_digit_upper (b div 16), hex_digit_upper (b mod 16)]"
  by (simp add: percent_octet_def)

lemma cont_octets_percent:
  "\<forall>b \<in> set bs. b < 256 \<Longrightarrow>
     cont_octets (length bs) (concat (map percent_octet bs) @ rest) = Some (bs, rest)"
  by (induction bs) (simp_all add: percent_octet_shape hex_octet_percent)

lemma escape_unit_high_octet:
  assumes "0x80 \<le> b" "b < 256"
  shows "escape_unit (of_nat b) = percent_octet b"
proof -
  have u: "unat (of_nat b :: jschar) = b"
    using assms by (simp add: unat_of_nat16)
  have "\<not> is_escape_unescaped (of_nat b)"
    using assms u by (auto simp: is_escape_unescaped_def is_alnum_def js_def word_le_nat_alt word16_eq_iff)
  moreover have "(of_nat b :: jschar) < 0x100"
    using assms u by (simp add: word_less_nat_alt)
  ultimately show ?thesis
    using u by (simp add: escape_unit_def)
qed

lemma escape_high_octets:
  "\<forall>b \<in> set bs. 0x80 \<le> b \<and> b < 256 \<Longrightarrow> escape (map of_nat bs) = concat (map percent_octet bs)"
  by (induction bs) (simp_all add: escape_def escape_unit_high_octet)

lemma escape_append: "escape (xs @ ys) = escape xs @ escape ys"
  by (simp add: escape_def)

lemma decode_ascii_unit:
  assumes "unat c < 0x80"
  shows "decodeURIComponent (escape_unit c @ rest) =
           (case decodeURIComponent rest of Inl e \<Rightarrow> Inl e | Inr out \<Rightarrow> Inr (c # out))"
proof (cases "is_escape_unescaped c")
  case True
  then have "c \<noteq> 0x25"
    by (auto simp: is_escape_unescaped_def is_alnum_def js_def word_le_nat_alt)
  with True show ?thesis by (simp add: escape_unit_def)
next
  case False
  have lt: "c < 0x100" using assms by (simp add: word_less_nat_alt)
  have b: "unat c < 256" using assms by simp
  have lo: "leading_ones (unat c) = 0" using assms by (simp add: leading_ones_def)
  from False lt have "escape_unit c = percent_octet (unat c)"
    by (simp add: escape_unit_def)
  then show ?thesis
    by (cases "decodeURIComponent rest")
      (simp_all add: percent_octet_shape hex_octet_percent [OF b] lo of_nat_unat16)
qed

lemma decode_multi_octet:
  assumes octs: "octets = b0 # bs" "\<forall>b \<in> set octets. b < 256"
    and lead: "leading_ones b0 = length octets" "2 \<le> length octets" "length octets \<le> 4"
    and cp: "utf8_decode_cp octets = Some cp"
  shows "decodeURIComponent (concat (map percent_octet octets) @ rest) =
           (case decodeURIComponent rest of Inl e \<Rightarrow> Inl e | Inr out \<Rightarrow> Inr (utf16_encode cp @ out))"
proof -
  have b0: "b0 < 256" and bs: "\<forall>b \<in> set bs. b < 256" using octs by auto
  have n: "leading_ones b0 - 1 = length bs" using lead(1) octs(1) by simp
  have co: "cont_octets (leading_ones b0 - 1) (concat (map percent_octet bs) @ rest) = Some (bs, rest)"
    unfolding n by (rule cont_octets_percent [OF bs])
  have l: "leading_ones b0 \<noteq> 0" "\<not> (leading_ones b0 = 1 \<or> leading_ones b0 > 4)"
    using lead by auto
  show ?thesis
    unfolding octs(1)
    using l co cp [unfolded octs(1)]
    by (simp add: percent_octet_shape [of b0] hex_octet_percent [OF b0])
qed

subsection \<open>UTF-8 arithmetic\<close>

lemma recompose64: "(x::nat) div 64 * 64 + x mod 64 = x"
  by simp

lemma div4096: "(cp::nat) div 4096 = cp div 64 div 64"
  by (simp add: div_mult2_eq [symmetric])

lemma div262144: "(cp::nat) div 262144 = cp div 64 div 64 div 64"
  by (simp add: div_mult2_eq [symmetric])

lemma lead_mod:
  fixes q :: nat
  shows "q < 32 \<Longrightarrow> (0xC0 + q) mod 32 = q"
    and "q < 16 \<Longrightarrow> (0xE0 + q) mod 16 = q"
    and "q < 8 \<Longrightarrow> (0xF0 + q) mod 8 = q"
proof -
  have a: "(0xC0 + q) mod 32 = (6 * 32 + q) mod 32" by simp
  have b: "(0xE0 + q) mod 16 = (14 * 16 + q) mod 16" by simp
  have c: "(0xF0 + q) mod 8 = (30 * 8 + q) mod 8" by simp
  show "q < 32 \<Longrightarrow> (0xC0 + q) mod 32 = q"
    unfolding a by (simp only: mod_mult_self3 mod_less)
  show "q < 16 \<Longrightarrow> (0xE0 + q) mod 16 = q"
    unfolding b by (simp only: mod_mult_self3 mod_less)
  show "q < 8 \<Longrightarrow> (0xF0 + q) mod 8 = q"
    unfolding c by (simp only: mod_mult_self3 mod_less)
qed

lemma cont_mod: "(0x80 + (x::nat) mod 64) mod 64 = x mod 64"
proof -
  have "(0x80 + x mod 64) mod 64 = (2 * 64 + x mod 64) mod 64" by simp
  also have "\<dots> = x mod 64" by (simp only: mod_mult_self3 mod_mod_trivial)
  finally show ?thesis .
qed

lemma utf8_recompose3: "((cp::nat) div 4096 * 64 + (cp div 64) mod 64) * 64 + cp mod 64 = cp"
proof -
  have "cp div 4096 * 64 + (cp div 64) mod 64 = cp div 64"
    unfolding div4096 by (rule recompose64)
  then show ?thesis by (simp only: recompose64)
qed

lemma utf8_recompose4: "(((cp::nat) div 262144 * 64 + (cp div 4096) mod 64) * 64 + (cp div 64) mod 64) * 64 + cp mod 64 = cp"
proof -
  have "cp div 262144 * 64 + (cp div 4096) mod 64 = cp div 4096"
    unfolding div262144 div4096 by (rule recompose64)
  then show ?thesis by (simp only: utf8_recompose3)
qed

lemma utf8_div_bounds: "cp < 0x800 \<Longrightarrow> (cp::nat) div 64 < 32" "cp < 0x10000 \<Longrightarrow> cp div 4096 < 16"
  "cp < 0x110000 \<Longrightarrow> cp div 262144 < 8" "cp < 0x110000 \<Longrightarrow> cp div 262144 \<le> 4"
  by auto

lemma mod64_lt128: "(x::nat) mod 64 < 128"
  by (rule less_trans [OF mod_less_divisor]) simp_all

lemma utf8_two:
  assumes "0x80 \<le> cp" "cp < 0x800"
  shows "utf8_encode cp = [0xC0 + cp div 64, 0x80 + cp mod 64]"
    "leading_ones (0xC0 + cp div 64) = 2"
    "((0xC0 + cp div 64) mod 32) * 64 + (0x80 + cp mod 64) mod 64 = cp"
proof -
  show "utf8_encode cp = [0xC0 + cp div 64, 0x80 + cp mod 64]"
    using assms by (simp add: utf8_encode_def)
  have q: "cp div 64 < 32" using assms(2) by (rule utf8_div_bounds)
  then show "leading_ones (0xC0 + cp div 64) = 2"
    by (simp add: leading_ones_def)
  show "((0xC0 + cp div 64) mod 32) * 64 + (0x80 + cp mod 64) mod 64 = cp"
    by (simp only: lead_mod(1) [OF q] cont_mod recompose64)
qed

lemma utf8_three:
  assumes "0x800 \<le> cp" "cp < 0x10000"
  shows "utf8_encode cp = [0xE0 + cp div 4096, 0x80 + (cp div 64) mod 64, 0x80 + cp mod 64]"
    "leading_ones (0xE0 + cp div 4096) = 3"
    "(((0xE0 + cp div 4096) mod 16) * 64 + (0x80 + (cp div 64) mod 64) mod 64) * 64
       + (0x80 + cp mod 64) mod 64 = cp"
proof -
  show "utf8_encode cp = [0xE0 + cp div 4096, 0x80 + (cp div 64) mod 64, 0x80 + cp mod 64]"
    using assms by (simp add: utf8_encode_def)
  have q: "cp div 4096 < 16" using assms(2) by (rule utf8_div_bounds)
  then show "leading_ones (0xE0 + cp div 4096) = 3"
    by (simp add: leading_ones_def)
  show "(((0xE0 + cp div 4096) mod 16) * 64 + (0x80 + (cp div 64) mod 64) mod 64) * 64
       + (0x80 + cp mod 64) mod 64 = cp"
    by (simp only: lead_mod(2) [OF q] cont_mod utf8_recompose3)
qed

lemma utf8_four:
  assumes "0x10000 \<le> cp" "cp < 0x110000"
  shows "utf8_encode cp = [0xF0 + cp div 262144, 0x80 + (cp div 4096) mod 64,
            0x80 + (cp div 64) mod 64, 0x80 + cp mod 64]"
    "leading_ones (0xF0 + cp div 262144) = 4"
    "((((0xF0 + cp div 262144) mod 8) * 64 + (0x80 + (cp div 4096) mod 64) mod 64) * 64
        + (0x80 + (cp div 64) mod 64) mod 64) * 64 + (0x80 + cp mod 64) mod 64 = cp"
proof -
  show "utf8_encode cp = [0xF0 + cp div 262144, 0x80 + (cp div 4096) mod 64,
            0x80 + (cp div 64) mod 64, 0x80 + cp mod 64]"
    using assms by (simp add: utf8_encode_def)
  have q: "cp div 262144 < 8" using assms(2) by (rule utf8_div_bounds)
  then show "leading_ones (0xF0 + cp div 262144) = 4"
    by (simp add: leading_ones_def)
  show "((((0xF0 + cp div 262144) mod 8) * 64 + (0x80 + (cp div 4096) mod 64) mod 64) * 64
        + (0x80 + (cp div 64) mod 64) mod 64) * 64 + (0x80 + cp mod 64) mod 64 = cp"
    by (simp only: lead_mod(3) [OF q] cont_mod utf8_recompose4)
qed

lemma cont_octet_range: "0x80 \<le> 0x80 + (x::nat) mod 64 \<and> 0x80 + x mod 64 < 256"
  using mod64_lt128 [of x] by simp

lemma utf8_decode_encode:
  assumes "0x80 \<le> cp" "is_scalar_value cp"
  shows "utf8_decode_cp (utf8_encode cp) = Some cp"
    "leading_ones (hd (utf8_encode cp)) = length (utf8_encode cp)"
    "2 \<le> length (utf8_encode cp)" "length (utf8_encode cp) \<le> 4"
    "\<forall>b \<in> set (utf8_encode cp). 0x80 \<le> b \<and> b < 256"
proof -
  from assms(2) have lt: "cp < 0x110000" by (auto simp: is_scalar_value_def)
  consider "cp < 0x800" | "0x800 \<le> cp" "cp < 0x10000" | "0x10000 \<le> cp" by linarith
  then have "utf8_decode_cp (utf8_encode cp) = Some cp
     \<and> leading_ones (hd (utf8_encode cp)) = length (utf8_encode cp)
     \<and> 2 \<le> length (utf8_encode cp) \<and> length (utf8_encode cp) \<le> 4
     \<and> (\<forall>b \<in> set (utf8_encode cp). 0x80 \<le> b \<and> b < 256)"
  proof cases
    case 1
    note e = utf8_two [OF assms(1) 1]
    have r: "cp div 64 < 32" using 1 by (rule utf8_div_bounds)
    have d: "utf8_decode_cp (utf8_encode cp) = Some cp"
      by (simp only: utf8_decode_cp_def e(1) list.case Let_def e(3) assms(2) simp_thms if_True)
    have l: "leading_ones (hd (utf8_encode cp)) = length (utf8_encode cp)"
      by (simp only: e(1) list.sel e(2)) simp
    have n: "2 \<le> length (utf8_encode cp)" "length (utf8_encode cp) \<le> 4"
      by (simp_all only: e(1)) simp_all
    have b: "\<forall>b \<in> set (utf8_encode cp). 0x80 \<le> b \<and> b < 256"
      unfolding e(1) using r cont_octet_range [of cp] by simp
    from d l n b show ?thesis by blast
  next
    case 2
    note e = utf8_three [OF 2]
    have r: "cp div 4096 < 16" using 2(2) by (rule utf8_div_bounds)
    have d: "utf8_decode_cp (utf8_encode cp) = Some cp"
      by (simp only: utf8_decode_cp_def e(1) list.case Let_def e(3) assms(2) simp_thms if_True)
    have l: "leading_ones (hd (utf8_encode cp)) = length (utf8_encode cp)"
      by (simp only: e(1) list.sel e(2)) simp
    have n: "2 \<le> length (utf8_encode cp)" "length (utf8_encode cp) \<le> 4"
      by (simp_all only: e(1)) simp_all
    have b: "\<forall>b \<in> set (utf8_encode cp). 0x80 \<le> b \<and> b < 256"
      unfolding e(1) using r cont_octet_range [of cp] cont_octet_range [of "cp div 64"] by simp
    from d l n b show ?thesis by blast
  next
    case 3
    note e = utf8_four [OF 3 lt]
    have r: "cp div 262144 < 8" using lt by (rule utf8_div_bounds)
    have d: "utf8_decode_cp (utf8_encode cp) = Some cp"
      by (simp only: utf8_decode_cp_def e(1) list.case Let_def e(3) assms(2) simp_thms if_True)
    have l: "leading_ones (hd (utf8_encode cp)) = length (utf8_encode cp)"
      by (simp only: e(1) list.sel e(2)) simp
    have n: "2 \<le> length (utf8_encode cp)" "length (utf8_encode cp) \<le> 4"
      by (simp_all only: e(1)) simp_all
    have b: "\<forall>b \<in> set (utf8_encode cp). 0x80 \<le> b \<and> b < 256"
      unfolding e(1) using r cont_octet_range [of cp] cont_octet_range [of "cp div 64"]
        cont_octet_range [of "cp div 4096"] by simp
    from d l n b show ?thesis by blast
  qed
  then show "utf8_decode_cp (utf8_encode cp) = Some cp"
    "leading_ones (hd (utf8_encode cp)) = length (utf8_encode cp)"
    "2 \<le> length (utf8_encode cp)" "length (utf8_encode cp) \<le> 4"
    "\<forall>b \<in> set (utf8_encode cp). 0x80 \<le> b \<and> b < 256"
    by blast+
qed

subsection \<open>UTF-16 of a decoded code point\<close>

lemma utf16_encode_bmp: "utf16_encode (unat (c :: jschar)) = [c]"
  using unat_lt16 [of c] by (simp add: utf16_encode_def of_nat_unat16)

lemma utf16_encode_pair:
  assumes "is_high_surrogate c" "is_low_surrogate d"
  shows "utf16_encode (surrogate_pair_cp c d) = [c, d]"
proof -
  let ?h = "unat c - 0xD800" and ?l = "unat d - 0xDC00"
  have hc: "0xD800 \<le> unat c" and ld: "0xDC00 \<le> unat d" and l: "?l < 0x400"
    using assms by (auto simp: is_high_surrogate_def is_low_surrogate_def word_le_nat_alt)
  have cp: "surrogate_pair_cp c d - 0x10000 = ?h * 0x400 + ?l"
    by (simp add: surrogate_pair_cp_def)
  have ge: "\<not> surrogate_pair_cp c d < 0x10000"
    by (simp add: surrogate_pair_cp_def)
  have "0xD800 + (?h * 0x400 + ?l) div 0x400 = unat c"
    using divmod_pack(1) [OF l, of ?h] hc by simp
  moreover have "0xDC00 + (?h * 0x400 + ?l) mod 0x400 = unat d"
    using divmod_pack(2) [OF l, of ?h] ld by simp
  ultimately show ?thesis
    unfolding utf16_encode_def cp using ge by (simp only: if_False of_nat_unat16)
qed

lemma surrogate_pair_scalar:
  assumes "is_high_surrogate c" "is_low_surrogate d"
  shows "is_scalar_value (surrogate_pair_cp c d)" "0x80 \<le> surrogate_pair_cp c d"
  using surrogate_pair_cp_range [OF assms] by (simp_all add: is_scalar_value_def)

lemma bmp_scalar:
  assumes "\<not> is_high_surrogate c" "\<not> is_low_surrogate c"
  shows "is_scalar_value (unat c)"
  using assms unat_lt16 [of c]
  by (auto simp: is_scalar_value_def is_high_surrogate_def is_low_surrogate_def word_le_nat_alt)

lemma decode_code_point:
  assumes "0x80 \<le> cp" "is_scalar_value cp"
  shows "decodeURIComponent (escape (map of_nat (utf8_encode cp)) @ rest) =
           (case decodeURIComponent rest of Inl e \<Rightarrow> Inl e | Inr out \<Rightarrow> Inr (utf16_encode cp @ out))"
proof -
  note f = utf8_decode_encode [OF assms]
  from f(3) obtain b0 bs where o: "utf8_encode cp = b0 # bs"
    by (cases "utf8_encode cp") auto
  have lead: "leading_ones b0 = length (utf8_encode cp)" using f(2) o by simp
  have small: "\<forall>b \<in> set (utf8_encode cp). b < 256" using f(5) by blast
  have esc: "escape (map of_nat (utf8_encode cp)) = concat (map percent_octet (utf8_encode cp))"
    by (rule escape_high_octets [OF f(5)])
  show ?thesis
    unfolding esc by (rule decode_multi_octet [OF o small lead f(3) f(4) f(1)])
qed

lemma decode_escape_utf8:
  assumes "well_formed_utf16 s"
  shows "decodeURIComponent (escape (map of_nat (utf8_of s))) = Inr s"
  using assms
proof (induction s rule: well_formed_utf16.induct)
  case 1
  show ?case by (simp add: escape_def)
next
  case (2 c cs)
  show ?case
  proof (cases "is_high_surrogate c")
    case True
    with "2.prems" obtain d ds where cs: "cs = d # ds" and low: "is_low_surrogate d" and wf: "well_formed_utf16 ds"
      by (cases cs) auto
    note ih = "2.IH"(1) [OF True cs wf]
    have u: "utf8_of (c # cs) = utf8_encode (surrogate_pair_cp c d) @ utf8_of ds"
      using True cs by simp
    show ?thesis
      unfolding u map_append escape_append
      using decode_code_point [OF surrogate_pair_scalar(2,1) [OF True low], of "escape (map of_nat (utf8_of ds))"]
      by (simp add: ih utf16_encode_pair [OF True low] cs)
  next
    case False
    with "2.prems" have nl: "\<not> is_low_surrogate c" and wf: "well_formed_utf16 cs" by auto
    note ih = "2.IH"(2) [OF False wf]
    have u: "utf8_of (c # cs) = utf8_encode (unat c) @ utf8_of cs"
      using False by simp
    show ?thesis
    proof (cases "unat c < 0x80")
      case True
      then have e: "utf8_encode (unat c) = [unat c]" by (simp add: utf8_encode_def)
      have "escape (map of_nat [unat c]) = escape_unit c"
        by (simp add: escape_def of_nat_unat16)
      then show ?thesis
        unfolding u e map_append escape_append
        using decode_ascii_unit [OF True, of "escape (map of_nat (utf8_of cs))"]
        by (simp add: ih)
    next
      case ge: False
      then have "0x80 \<le> unat c" by simp
      from decode_code_point [OF this bmp_scalar [OF False nl], of "escape (map of_nat (utf8_of cs))"]
      show ?thesis
        unfolding u map_append escape_append
        by (simp add: ih utf16_encode_bmp)
    qed
  qed
qed

lemma encodeURIComponent_ill_formed:
  "\<not> well_formed_utf16 s \<Longrightarrow> encodeURIComponent s = Inl URIError"
proof (induction s rule: well_formed_utf16.induct)
  case 1
  then show ?case by simp
next
  case (2 c cs)
  show ?case
  proof (cases "is_high_surrogate c")
    case True
    then have nu: "\<not> is_uri_unescaped c" using uri_unescaped_ascii(3) by blast
    have nl: "\<not> is_low_surrogate c"
      using True by (auto simp: is_high_surrogate_def is_low_surrogate_def word_le_nat_alt)
    show ?thesis
    proof (cases cs)
      case Nil
      with True nu nl show ?thesis by simp
    next
      case (Cons d ds)
      show ?thesis
      proof (cases "is_low_surrogate d")
        case False
        with True nu nl Cons show ?thesis by simp
      next
        case low: True
        with "2.prems" True Cons have "\<not> well_formed_utf16 ds" by simp
        from "2.IH"(1) [OF True Cons this] True nu nl Cons low show ?thesis by simp
      qed
    qed
  next
    case False
    show ?thesis
    proof (cases "is_low_surrogate c")
      case True
      then have "\<not> is_uri_unescaped c" using uri_unescaped_ascii(4) by blast
      with True show ?thesis by simp
    next
      case nl: False
      with "2.prems" False have "\<not> well_formed_utf16 cs" by simp
      from "2.IH"(2) [OF False this] False nl show ?thesis by simp
    qed
  qed
qed

text \<open>
  C9, as amended. For a string of well-formed UTF-16 (no unpaired surrogate)
  \<open>encodeAttr\<close> returns a text from which \<open>decodeAttr\<close> recovers the string; on a
  string with an unpaired surrogate \<open>encodeAttr\<close> raises \<open>URIError\<close>.
\<close>

theorem attr_round_trip_well_formed:
  "(well_formed_utf16 s \<longrightarrow> (\<exists>t. encodeAttr s = Inr t \<and> decodeAttr t = s))
   \<and> (\<not> well_formed_utf16 s \<longrightarrow> encodeAttr s = Inl URIError)"
proof (intro conjI impI)
  assume wf: "well_formed_utf16 s"
  let ?t = "base64_encode (utf8_of s)"
  have e: "encodeAttr s = Inr ?t" by (rule encodeAttr_well_formed [OF wf])
  have a: "atob ?t = Inr (map of_nat (utf8_of s))"
    by (rule atob_base64_encode [OF utf8_of_octets])
  have "decodeAttr ?t = s"
    by (simp add: decodeAttr_def a decode_escape_utf8 [OF wf])
  with e show "\<exists>t. encodeAttr s = Inr t \<and> decodeAttr t = s" by blast
next
  assume "\<not> well_formed_utf16 s"
  then show "encodeAttr s = Inl URIError"
    by (simp add: encodeAttr_def encodeURIComponent_ill_formed)
qed

theorem attr_round_trip_well_formed_witness:
  "well_formed_utf16 (js ''[[Block:a t='' @ [0xE9, 0x20AC, 0xD83D, 0xDE00] @ js '']]'')
   \<and> (\<exists>t. encodeAttr (js ''[[Block:a t='' @ [0xE9, 0x20AC, 0xD83D, 0xDE00] @ js '']]'') = Inr t
          \<and> decodeAttr t = js ''[[Block:a t='' @ [0xE9, 0x20AC, 0xD83D, 0xDE00] @ js '']]'')
   \<and> \<not> well_formed_utf16 [0x61, 0xDE00]
   \<and> encodeAttr [0x61, 0xDE00] = Inl URIError"
proof -
  let ?s = "js ''[[Block:a t='' @ [0xE9, 0x20AC, 0xD83D, 0xDE00] @ js '']]''"
  have wf: "well_formed_utf16 ?s"
    by code_simp
  have nwf: "\<not> well_formed_utf16 [0x61, 0xDE00]"
    by code_simp
  from attr_round_trip_well_formed [of ?s] wf
  have a: "\<exists>t. encodeAttr ?s = Inr t \<and> decodeAttr t = ?s" by blast
  from attr_round_trip_well_formed [of "[0x61, 0xDE00]"] nwf
  have b: "encodeAttr [0x61, 0xDE00] = Inl URIError" by blast
  from wf a nwf b show ?thesis by blast
qed

text \<open>
  C9, as stated for every string, fails on a token text that holds the first half of a
  surrogate pair alone: \<open>encodeURIComponent\<close> raises \<open>URIError\<close>, so there is no
  encoded attribute to decode.
\<close>

theorem attr_unpaired_surrogate_raises:
  "encodeAttr (js ''[[Block:a t='' @ [0xD83D] @ js '']]'') = Inl URIError
   \<and> map_sum id decodeAttr (encodeAttr (js ''[[Block:a t='' @ [0xD83D] @ js '']]''))
       \<noteq> Inr (js ''[[Block:a t='' @ [0xD83D] @ js '']]'')"
proof -
  have "encodeAttr (js ''[[Block:a t='' @ [0xD83D] @ js '']]'') = Inl URIError"
    by code_simp
  then show ?thesis by simp
qed

lemma attr_example: "encodeAttr (js ''[[Block:a k=1]]'') = Inr (js ''W1tCbG9jazphIGs9MV1d'')"
  "decodeAttr (js ''W1tCbG9jazphIGs9MV1d'') = js ''[[Block:a k=1]]''"
  by code_simp+

section \<open>Forward sync of the rich editor\<close>

subsection \<open>Line ends and escaped text\<close>




lemma escapeHTML_Cons: "escapeHTML (c # s) = escapeHTML_unit c @ escapeHTML s"
  by (simp add: escapeHTML_def)





lemma p_state_emit_character [simp]: "p_state (emit_character c p) = p_state p"
  by (simp add: emit_character_def split: list.splits)






subsection \<open>The markup of a token\<close>










subsection \<open>Characters of the attribute values\<close>








subsection \<open>The token element\<close>



lemma escapeHTML_no_cr: "0xD \<notin> set s \<Longrightarrow> 0xD \<notin> set (escapeHTML s)"
  by (induction s) (auto simp: escapeHTML_Cons escapeHTML_unit_def js_def escapeHTML_def)


subsection \<open>What a match looks like\<close>






subsection \<open>Rendering, parsing and reading back\<close>






subsection \<open>When the text read back is the prompt\<close>












text \<open>
  The parser at work: the references that \<open>escapeHTML\<close> writes are replaced, text that is
  not escaped opens a tag, and of a token element only the \<open>data-token\<close> attribute is
  read. The last fact is the markup of a prompt with one token.
\<close>

lemma parser_examples:
  \<open>map_option textFromEditor (set_innerHTML (js ''a &lt; b &amp;&amp; c'')) = Some (js ''a < b && c'')
   \<and> set_innerHTML (js ''a <b> c'') = None
   \<and> map_option textFromEditor
         (set_innerHTML (js ''x<span class="block-token" data-token="W1tCbG9jazphIGs9MV1d">Spin</span>y''))
     = Some (js ''x[[Block:a k=1]]y'')
   \<and> map_option textFromEditor (set_innerHTML (js ''x<span class="other">Spin</span>y''))
     = Some (js ''xSpiny'')\<close>
  by code_simp

lemma render_example:
  \<open>renderPromptHTML (js ''a<b [[Block:a k=1]]'') ([] :: unit Block list)
   = Inr (js ''a&lt;b <span class="block-token" role="button" tabindex="0" data-token-index="0" data-token="W1tCbG9jazphIGs9MV1d" data-block-id="YQ==" contenteditable="false" style="cursor:pointer;display:inline-flex;align-items:center;gap:8px;padding:4px 10px;border-radius:999px;background:hsla(97, 70%, 28%, 0.40);color:#e9eef5;border:1px solid hsla(97, 85%, 62%, 0.60);"><span style="font-weight:700;">Block a</span></span>'')\<close>
  by code_simp

end
